theory Spec2Isabelle
  imports Complex_Main
begin

section \<open>Virtual Gamepad: the input bridge of \<open>src/code.js\<close>\<close>

text \<open>
  The plugin keeps two module-level maps (\<open>pointerToKey\<close>, \<open>activeRepeats\<close>), mutates the
  host's array \<open>RPM.Common.Inputs.keysPressed\<close>, registers timers with the window and calls
  the host's three notification entry points. All of that is one explicit state record,
  passed through every operation and returned updated.

  Key codes are the numbers the buttons are bound to (87, 83, 65, 68, 13 and 27 unless
  configured otherwise). They are integers here, so \<open>Array.includes\<close> and
  \<open>Array.indexOf\<close> agree on them and \<open>typeof keyCode === "number"\<close> holds for every stored
  key code. Timer handles are the positive integers the window hands out, never reused.
\<close>

type_synonym keyCode = int
type_synonym pointerId = int
type_synonym handle = nat

text \<open>The two hold / repeat constants of the source, in milliseconds.\<close>

definition REPEAT_DELAY :: nat where
  "REPEAT_DELAY = 180"

definition REPEAT_INTERVAL :: nat where
  "REPEAT_INTERVAL = 60"

text \<open>
  A call of \<open>RPM.Manager.Stack.onKeyPressed\<close>, \<open>onKeyPressedAndRepeat\<close> or \<open>onKeyReleased\<close>.
  The host's handlers are opaque; the model records each call, in order.
\<close>

datatype notification =
    onKeyPressed keyCode
  | onKeyPressedAndRepeat keyCode
  | onKeyReleased keyCode

text \<open>
  The two closures \<open>pressKey\<close> hands to the window: the body of the \<open>setTimeout\<close> call and
  the body of the \<open>setInterval\<close> call, each closed over its \<open>keyCode\<close>.
\<close>

datatype callback =
    DelayCallback keyCode
  | IntervalCallback keyCode

fun callbackKey :: "callback \<Rightarrow> keyCode" where
  "callbackKey (DelayCallback k) = k"
| "callbackKey (IntervalCallback k) = k"

text \<open>
  An entry of the window's timer table: the closure to run, the time it is due, and the
  period when it was made by \<open>setInterval\<close> (\<open>None\<close> for a one-shot \<open>setTimeout\<close>).
\<close>

record timer =
  callback :: callback
  due :: nat
  period :: "nat option"

text \<open>The object literal \<open>{ delay, interval }\<close> stored in \<open>activeRepeats\<close>; \<open>null\<close> is \<open>None\<close>.\<close>

record repeatTimers =
  delay :: "handle option"
  interval :: "handle option"

record state =
  loaded :: bool
  isLoading :: bool
  keysPressed :: "keyCode list"
  pointerToKey :: "pointerId \<rightharpoonup> keyCode"
  activeRepeats :: "keyCode \<rightharpoonup> repeatTimers"
  timers :: "handle \<rightharpoonup> timer"
  nextHandle :: handle
  now :: nat
  notifications :: "notification list"

text \<open>The state when the module has just been evaluated: the host has not finished loading.\<close>

definition initial :: state where
  "initial = \<lparr> loaded = False, isLoading = False, keysPressed = [],
     pointerToKey = Map.empty, activeRepeats = Map.empty, timers = Map.empty,
     nextHandle = 1, now = 0, notifications = [] \<rparr>"

subsection \<open>The window's timers\<close>

definition setTimeout :: "callback \<Rightarrow> nat \<Rightarrow> state \<Rightarrow> handle \<times> state" where
  "setTimeout cb ms s =
     (nextHandle s,
      s\<lparr> timers := (timers s)(nextHandle s \<mapsto> \<lparr> callback = cb, due = now s + ms, period = None \<rparr>),
         nextHandle := Suc (nextHandle s) \<rparr>)"

definition setInterval :: "callback \<Rightarrow> nat \<Rightarrow> state \<Rightarrow> handle \<times> state" where
  "setInterval cb ms s =
     (nextHandle s,
      s\<lparr> timers := (timers s)(nextHandle s \<mapsto> \<lparr> callback = cb, due = now s + ms, period = Some ms \<rparr>),
         nextHandle := Suc (nextHandle s) \<rparr>)"

text \<open>Both calls remove the handle from the one table the window keeps; an unknown handle is ignored.\<close>

definition clearTimeout :: "handle \<Rightarrow> state \<Rightarrow> state" where
  "clearTimeout h s = s\<lparr> timers := (timers s)(h := None) \<rparr>"

definition clearInterval :: "handle \<Rightarrow> state \<Rightarrow> state" where
  "clearInterval h s = s\<lparr> timers := (timers s)(h := None) \<rparr>"

subsection \<open>\<open>isReady\<close>, \<open>clearRepeat\<close>, \<open>pressKey\<close>, \<open>releaseKey\<close>\<close>

definition isReady :: "state \<Rightarrow> bool" where
  "isReady s \<longleftrightarrow> loaded s \<and> \<not> isLoading s"

definition notify :: "notification \<Rightarrow> state \<Rightarrow> state" where
  "notify n s = s\<lparr> notifications := notifications s @ [n] \<rparr>"

definition clearRepeat :: "keyCode \<Rightarrow> state \<Rightarrow> state" where
  "clearRepeat keyCode s =
     (case activeRepeats s keyCode of
        None \<Rightarrow> s
      | Some repeatTimers \<Rightarrow>
          let s1 = (case delay repeatTimers of None \<Rightarrow> s | Some h \<Rightarrow> clearTimeout h s);
              s2 = (case interval repeatTimers of None \<Rightarrow> s1 | Some h \<Rightarrow> clearInterval h s1)
          in s2\<lparr> activeRepeats := (activeRepeats s2)(keyCode := None) \<rparr>)"

definition pressKey :: "keyCode \<Rightarrow> state \<Rightarrow> state" where
  "pressKey keyCode s =
     (if \<not> isReady s then s
      else
        let s1 = (if keyCode \<notin> set (keysPressed s)
                  then notify (onKeyPressed keyCode) (s\<lparr> keysPressed := keysPressed s @ [keyCode] \<rparr>)
                  else s);
            s2 = notify (onKeyPressedAndRepeat keyCode) s1;
            s3 = clearRepeat keyCode s2;
            (h, s4) = setTimeout (DelayCallback keyCode) REPEAT_DELAY s3
        in s4\<lparr> activeRepeats := (activeRepeats s4)(keyCode \<mapsto> \<lparr> delay = Some h, interval = None \<rparr>) \<rparr>)"

text \<open>\<open>indexOf\<close> followed by \<open>splice(index, 1)\<close> removes the first occurrence, if there is one.\<close>

definition releaseKey :: "keyCode \<Rightarrow> state \<Rightarrow> state" where
  "releaseKey keyCode s =
     (if \<not> isReady s then s
      else
        let s1 = clearRepeat keyCode s;
            s2 = s1\<lparr> keysPressed := remove1 keyCode (keysPressed s1) \<rparr>
        in notify (onKeyReleased keyCode) s2)"

subsection \<open>Timer callbacks\<close>

text \<open>
  The body of the delay closure arms the interval and overwrites the entry of
  \<open>activeRepeats\<close>; the body of the interval closure is the guarded repeat notification.
\<close>

fun runCallback :: "callback \<Rightarrow> state \<Rightarrow> state" where
  "runCallback (DelayCallback keyCode) s =
     (let (h, s1) = setInterval (IntervalCallback keyCode) REPEAT_INTERVAL s
      in s1\<lparr> activeRepeats := (activeRepeats s1)(keyCode \<mapsto> \<lparr> delay = None, interval = Some h \<rparr>) \<rparr>)"
| "runCallback (IntervalCallback keyCode) s =
     (if isReady s \<and> keyCode \<in> set (keysPressed s)
      then notify (onKeyPressedAndRepeat keyCode) s
      else s)"

text \<open>
  The window runs timer \<open>h\<close>: nothing happens for an unknown handle or a timer that is not
  due yet; a one-shot timer leaves the table before its closure runs, a recurring one is
  rescheduled one period later.
\<close>

definition fire :: "handle \<Rightarrow> state \<Rightarrow> state" where
  "fire h s =
     (case timers s h of
        None \<Rightarrow> s
      | Some t \<Rightarrow>
          if now s < due t then s
          else (case period t of
                  None \<Rightarrow> runCallback (callback t) (s\<lparr> timers := (timers s)(h := None) \<rparr>)
                | Some p \<Rightarrow> runCallback (callback t) (s\<lparr> timers := (timers s)(h \<mapsto> t\<lparr> due := due t + p \<rparr>) \<rparr>)))"

subsection \<open>Pointer handlers\<close>

text \<open>
  \<open>handlePointerDown\<close> of the button bound to \<open>keyCode\<close>. \<open>preventDefault\<close> and
  \<open>setPointerCapture\<close> act on the browser only.
\<close>

definition handlePointerDown :: "keyCode \<Rightarrow> pointerId \<Rightarrow> state \<Rightarrow> state" where
  "handlePointerDown keyCode pid s = pressKey keyCode (s\<lparr> pointerToKey := (pointerToKey s)(pid \<mapsto> keyCode) \<rparr>)"

text \<open>
  \<open>handlePointerUp\<close>, registered for \<open>pointerup\<close>, \<open>pointercancel\<close> and
  \<open>lostpointercapture\<close>. \<open>pointerToKey.get\<close> yields \<open>undefined\<close> for an untracked pointer,
  which is the only way the \<open>typeof\<close> test fails.
\<close>

definition handlePointerUp :: "pointerId \<Rightarrow> state \<Rightarrow> state" where
  "handlePointerUp pid s =
     (case pointerToKey s pid of
        None \<Rightarrow> s
      | Some activeKeyCode \<Rightarrow> releaseKey activeKeyCode (s\<lparr> pointerToKey := (pointerToKey s)(pid := None) \<rparr>))"

text \<open>The listener \<open>installGlobalPointerListener\<close> adds to the document.\<close>

definition globalPointerUp :: "pointerId \<Rightarrow> state \<Rightarrow> state" where
  "globalPointerUp pid s =
     (case pointerToKey s pid of
        Some keyCode \<Rightarrow> releaseKey keyCode (s\<lparr> pointerToKey := (pointerToKey s)(pid := None) \<rparr>)
      | None \<Rightarrow> s)"

subsection \<open>Runs of the event loop\<close>

text \<open>
  Everything that can happen to the state: the five entry points of the module, the passage
  of time, and the host changing the two flags \<open>isReady\<close> reads.
\<close>

datatype event =
    PointerDown keyCode pointerId
  | PointerUp pointerId
  | DocumentPointerUp pointerId
  | TimerFires handle
  | Elapse nat
  | HostLoaded bool
  | HostLoading bool

fun step :: "event \<Rightarrow> state \<Rightarrow> state" where
  "step (PointerDown k pid) s = handlePointerDown k pid s"
| "step (PointerUp pid) s = handlePointerUp pid s"
| "step (DocumentPointerUp pid) s = globalPointerUp pid s"
| "step (TimerFires h) s = fire h s"
| "step (Elapse d) s = s\<lparr> now := now s + d \<rparr>"
| "step (HostLoaded b) s = s\<lparr> loaded := b \<rparr>"
| "step (HostLoading b) s = s\<lparr> isLoading := b \<rparr>"

definition run :: "event list \<Rightarrow> state \<Rightarrow> state" where
  "run es s = foldl (\<lambda>s e. step e s) s es"

text \<open>
  The invariant every run from \<open>initial\<close> keeps. The pressed-keys list has no duplicates;
  every registered handle was handed out before; a delay closure sits in a one-shot timer
  and an interval closure in a recurring one; and the timer table and \<open>activeRepeats\<close>
  describe each other: every registered timer is the one its key's entry records, and
  every entry records a registered timer of its key.
\<close>

fun entryOf :: "handle \<Rightarrow> callback \<Rightarrow> repeatTimers" where
  "entryOf h (DelayCallback k) = \<lparr> delay = Some h, interval = None \<rparr>"
| "entryOf h (IntervalCallback k) = \<lparr> delay = None, interval = Some h \<rparr>"

fun oneShot :: "callback \<Rightarrow> bool" where
  "oneShot (DelayCallback k) = True"
| "oneShot (IntervalCallback k) = False"

definition bridge_inv :: "state \<Rightarrow> bool" where
  "bridge_inv s \<longleftrightarrow>
     distinct (keysPressed s) \<and>
     (\<forall>h t. timers s h = Some t \<longrightarrow>
        h < nextHandle s \<and>
        (period t = None \<longleftrightarrow> oneShot (callback t)) \<and>
        activeRepeats s (callbackKey (callback t)) = Some (entryOf h (callback t))) \<and>
     (\<forall>k r. activeRepeats s k = Some r \<longrightarrow>
        (\<exists>h t. timers s h = Some t \<and> callbackKey (callback t) = k \<and> r = entryOf h (callback t)))"

text \<open>The handles of the timers registered for a key code.\<close>

definition timersFor :: "keyCode \<Rightarrow> state \<Rightarrow> handle set" where
  "timersFor k s = {h. \<exists>t. timers s h = Some t \<and> callbackKey (callback t) = k}"


section \<open>Configuration: \<open>resolveKeyCode\<close> and the module's start-up reads\<close>

text \<open>
  A JavaScript number is a finite value, \<open>NaN\<close> or one of the two infinities. A finite
  double is represented by the rational it denotes (\<open>-0\<close> and \<open>+0\<close> are one value).
\<close>

datatype number = Finite rat | NaN | PosInfinity | NegInfinity

text \<open>
  The values \<open>getParameter\<close> can hand back: \<open>undefined\<close> for a parameter that is not
  there, \<open>null\<close>, booleans, numbers, strings, and arrays or plain objects. An array or
  object is given by the string its conversion to a primitive yields (\<open>"[object Object]"\<close>
  for a plain object, the joined elements for an array), which is all \<open>Number\<close> reads of it.
\<close>

datatype jsval =
    JUndefined
  | JNull
  | JBoolean bool
  | JNumber number
  | JString string
  | JObject string

datatype thrown = Thrown string

definition pluginName :: string where
  "pluginName = ''Virtual Gamepad''"

text \<open>
  \<open>Number\<close> applied to a string: the empty string is \<open>0\<close>; the reading of any other
  string (white space, decimal and hexadecimal literals, rounding, \<open>NaN\<close> for text that is
  no numeric literal) is the engine's, taken as the parameter \<open>lit\<close>.
\<close>

definition StringToNumber :: "(string \<Rightarrow> number) \<Rightarrow> string \<Rightarrow> number" where
  "StringToNumber lit s = (if s = [] then Finite 0 else lit s)"

fun Number :: "(string \<Rightarrow> number) \<Rightarrow> jsval \<Rightarrow> number" where
  "Number lit JUndefined = NaN"
| "Number lit JNull = Finite 0"
| "Number lit (JBoolean b) = (if b then Finite 1 else Finite 0)"
| "Number lit (JNumber n) = n"
| "Number lit (JString s) = StringToNumber lit s"
| "Number lit (JObject p) = StringToNumber lit p"

fun Number_isFinite :: "number \<Rightarrow> bool" where
  "Number_isFinite (Finite q) = True"
| "Number_isFinite NaN = False"
| "Number_isFinite PosInfinity = False"
| "Number_isFinite NegInfinity = False"

text \<open>
  \<open>getParameter\<close> is the host's \<open>RPM.Manager.Plugins.getParameter\<close>: it returns a value or
  throws. The \<open>try\<close> block of \<open>resolveKeyCode\<close> turns a throw into the fallback.
\<close>

definition resolveKeyCode ::
  "(string \<Rightarrow> number) \<Rightarrow> (string \<Rightarrow> string \<Rightarrow> thrown + jsval) \<Rightarrow> string \<Rightarrow> jsval \<Rightarrow> jsval" where
  "resolveKeyCode lit getParameter parameterName fallback =
     (case getParameter pluginName parameterName of
        Inl e \<Rightarrow> fallback
      | Inr v \<Rightarrow>
          let numericValue = Number lit v
          in if Number_isFinite numericValue then JNumber numericValue else fallback)"

text \<open>
  The host's key bindings, \<open>RPM.Datas.Keyboards\<close>. For each control the record holds
  \<open>None\<close> when the control object is missing, and otherwise the value of the optional chain
  \<open>sc?.[0]?.[0]\<close> on it (\<open>undefined\<close> when the chain stops short).
\<close>

record keyboards =
  UpHero :: "jsval option"
  DownHero :: "jsval option"
  LeftHero :: "jsval option"
  RightHero :: "jsval option"
  Action :: "jsval option"
  Cancel :: "jsval option"
  ButtonX :: "jsval option"
  ButtonY :: "jsval option"

text \<open>The fallback expression \<open>control ? control.sc?.[0]?.[0] ?? d : d\<close>.\<close>

definition bindingOr :: "jsval option \<Rightarrow> rat \<Rightarrow> jsval" where
  "bindingOr control d =
     (case control of
        None \<Rightarrow> JNumber (Finite d)
      | Some v \<Rightarrow> if v = JUndefined \<or> v = JNull then JNumber (Finite d) else v)"

record 'k key_codes =
  up :: 'k
  down :: 'k
  left :: 'k
  right :: 'k
  action :: 'k
  cancel :: 'k
  buttonX :: 'k
  buttonY :: 'k

definition KEY_CODES ::
  "(string \<Rightarrow> number) \<Rightarrow> (string \<Rightarrow> string \<Rightarrow> thrown + jsval) \<Rightarrow> keyboards \<Rightarrow> jsval key_codes" where
  "KEY_CODES lit getParameter kb =
     \<lparr> up = resolveKeyCode lit getParameter ''MoveUpKeyCode'' (bindingOr (UpHero kb) 87),
       down = resolveKeyCode lit getParameter ''MoveDownKeyCode'' (bindingOr (DownHero kb) 83),
       left = resolveKeyCode lit getParameter ''MoveLeftKeyCode'' (bindingOr (LeftHero kb) 65),
       right = resolveKeyCode lit getParameter ''MoveRightKeyCode'' (bindingOr (RightHero kb) 68),
       action = resolveKeyCode lit getParameter ''ActionKeyCode'' (bindingOr (Action kb) 13),
       cancel = resolveKeyCode lit getParameter ''CancelKeyCode'' (bindingOr (Cancel kb) 27),
       buttonX = resolveKeyCode lit getParameter ''ButtonXKeyCode'' (bindingOr (ButtonX kb) 13),
       buttonY = resolveKeyCode lit getParameter ''ButtonYKeyCode'' (bindingOr (ButtonY kb) 27) \<rparr>"

text \<open>
  What evaluating the module reads: first \<open>showGamepad\<close>, by a bare call of
  \<open>getParameter\<close> outside any \<open>try\<close>, then the eight key codes. A throw of the first call
  ends the evaluation of the module.
\<close>

record config =
  showGamepad :: jsval
  keyCodes :: "jsval key_codes"

definition loadConfiguration ::
  "(string \<Rightarrow> number) \<Rightarrow> (string \<Rightarrow> string \<Rightarrow> thrown + jsval) \<Rightarrow> keyboards \<Rightarrow> thrown + config" where
  "loadConfiguration lit getParameter kb =
     (case getParameter pluginName ''Show Gamepad'' of
        Inl e \<Rightarrow> Inl e
      | Inr v \<Rightarrow> Inr \<lparr> showGamepad = v, keyCodes = KEY_CODES lit getParameter kb \<rparr>)"

text \<open>
  What it means for the read of a key-code parameter to fail: the retrieval throws, the
  parameter is not there, or its value has no finite numeric reading.
\<close>

definition readFails :: "(string \<Rightarrow> number) \<Rightarrow> (string \<Rightarrow> string \<Rightarrow> thrown + jsval) \<Rightarrow> string \<Rightarrow> bool" where
  "readFails lit getParameter name =
     (case getParameter pluginName name of
        Inl e \<Rightarrow> True
      | Inr v \<Rightarrow> v = JUndefined \<or> \<not> Number_isFinite (Number lit v))"

section \<open>The touch surface: mounting the two clusters\<close>

text \<open>
  An element node: its tag, its \<open>id\<close> (the empty string when none was set), the properties
  the module assigns in order, the listeners added to it, and its children. The listeners
  of a button are the two closures of \<open>createTouchButton\<close>.
\<close>

datatype 'k handler = PointerDownHandler 'k | PointerUpHandler

datatype 'k element =
  Element (tagName: string) (elementId: string) (properties: "(string \<times> string) list")
    (eventListeners: "(string \<times> 'k handler) list") (childNodes: "'k element list")

text \<open>
  The document: its body, and the element nodes that are not in the body's subtree (the
  root, the head and what is in it).
\<close>

record 'k document =
  outside :: "'k element list"
  body :: "'k element"

definition DPAD_ID :: string where
  "DPAD_ID = ''rpm-mobile-dpad''"

definition ABXY_ID :: string where
  "ABXY_ID = ''rpm-mobile-abxy''"

definition createElement :: "string \<Rightarrow> 'k element" where
  "createElement tag = Element tag [] [] [] []"

fun setProperty :: "string \<Rightarrow> string \<Rightarrow> 'k element \<Rightarrow> 'k element" where
  "setProperty name v (Element t i ps ls cs) = Element t i (ps @ [(name, v)]) ls cs"

fun setId :: "string \<Rightarrow> 'k element \<Rightarrow> 'k element" where
  "setId v (Element t i ps ls cs) = Element t v ps ls cs"

fun addEventListener :: "string \<Rightarrow> 'k handler \<Rightarrow> 'k element \<Rightarrow> 'k element" where
  "addEventListener ev f (Element t i ps ls cs) = Element t i ps (ls @ [(ev, f)]) cs"

fun appendChild :: "'k element \<Rightarrow> 'k element \<Rightarrow> 'k element" where
  "appendChild (Element t i ps ls cs) child = Element t i ps ls (cs @ [child])"

text \<open>The element nodes of a subtree in tree order, and of the whole document.\<close>

fun elements :: "'k element \<Rightarrow> 'k element list" where
  "elements (Element t i ps ls cs) = Element t i ps ls cs # concat (map elements cs)"

definition allElements :: "'k document \<Rightarrow> 'k element list" where
  "allElements doc = outside doc @ elements (body doc)"

text \<open>\<open>document.getElementById\<close>: the first element with that id; the empty id matches nothing.\<close>

definition getElementById :: "string \<Rightarrow> 'k document \<Rightarrow> 'k element option" where
  "getElementById i doc = (if i = [] then None else find (\<lambda>e. elementId e = i) (allElements doc))"

text \<open>\<open>new URL(`./assets/${relativePath}`, import.meta.url).href\<close>, with the resolution against the module's URL as the parameter \<open>resolve\<close>.\<close>

definition assetURL :: "(string \<Rightarrow> string) \<Rightarrow> string \<Rightarrow> string" where
  "assetURL resolve relativePath = resolve (''./assets/'' @ relativePath)"

record 'k button_config =
  button_id :: string
  label :: string
  keyCode :: 'k
  imageFile :: string
  gridArea :: string

text \<open>A run of property assignments, and of \<open>addEventListener\<close> calls, in the order written.\<close>

definition setProperties :: "(string \<times> string) list \<Rightarrow> 'k element \<Rightarrow> 'k element" where
  "setProperties nvs e = foldl (\<lambda>e (name, v). setProperty name v e) e nvs"

definition addEventListeners :: "(string \<times> 'k handler) list \<Rightarrow> 'k element \<Rightarrow> 'k element" where
  "addEventListeners evs e = foldl (\<lambda>e (ev, f). addEventListener ev f e) e evs"

definition createTouchButton :: "(string \<Rightarrow> string) \<Rightarrow> 'k button_config \<Rightarrow> 'k element" where
  "createTouchButton resolve c =
     (let button = setProperties
            [ (''type'', ''button''),
              (''dataset.button'', button_id c),
              (''style.gridArea'', gridArea c),
              (''style.background'', ''transparent''),
              (''style.border'', ''none''),
              (''style.padding'', ''0''),
              (''style.margin'', ''0''),
              (''style.touchAction'', ''none''),
              (''style.pointerEvents'', ''auto''),
              (''style.display'', ''flex''),
              (''style.alignItems'', ''center''),
              (''style.justifyContent'', ''center'') ] (createElement ''button'');
          img = setProperties
            [ (''alt'', label c),
              (''src'', assetURL resolve (imageFile c)),
              (''style.maxWidth'', ''100%''),
              (''style.pointerEvents'', ''none'') ] (createElement ''img'');
          button = appendChild button img
      in addEventListeners
            [ (''pointerdown'', PointerDownHandler (keyCode c)),
              (''pointerup'', PointerUpHandler),
              (''pointercancel'', PointerUpHandler),
              (''lostpointercapture'', PointerUpHandler) ] button)"

text \<open>
  The container both clusters start from: \<open>mountDPad\<close> and \<open>mountABXY\<close> differ in the id
  and in the side (\<open>style.left\<close> or \<open>style.right\<close>) the container is anchored to.
\<close>

definition clusterContainer :: "string \<Rightarrow> string \<Rightarrow> 'k element" where
  "clusterContainer cid side =
     setProperties
       [ (''style.position'', ''fixed''),
         (side, ''4vw''),
         (''style.bottom'', ''14vh''),
         (''style.width'', ''180px''),
         (''style.height'', ''180px''),
         (''style.display'', ''grid''),
         (''style.gridTemplateColumns'', ''repeat(3, 1fr)''),
         (''style.gridTemplateRows'', ''repeat(3, 1fr)''),
         (''style.alignItems'', ''center''),
         (''style.justifyItems'', ''center''),
         (''style.pointerEvents'', ''auto''),
         (''style.touchAction'', ''none''),
         (''style.zIndex'', ''9999''),
         (''style.userSelect'', ''none'') ] (setId cid (createElement ''div''))"

definition dpadButtons :: "'k key_codes \<Rightarrow> 'k button_config list" where
  "dpadButtons kc =
     [ \<lparr> button_id = ''dpad-up'', label = ''Move Up'', keyCode = up kc,
         imageFile = ''dpad_element_north.png'', gridArea = ''1 / 2 / 2 / 3'' \<rparr>,
       \<lparr> button_id = ''dpad-left'', label = ''Move Left'', keyCode = left kc,
         imageFile = ''dpad_element_west.png'', gridArea = ''2 / 1 / 3 / 2'' \<rparr>,
       \<lparr> button_id = ''dpad-right'', label = ''Move Right'', keyCode = right kc,
         imageFile = ''dpad_element_east.png'', gridArea = ''2 / 3 / 3 / 4'' \<rparr>,
       \<lparr> button_id = ''dpad-down'', label = ''Move Down'', keyCode = down kc,
         imageFile = ''dpad_element_south.png'', gridArea = ''3 / 2 / 4 / 3'' \<rparr> ]"

definition abxyButtons :: "'k key_codes \<Rightarrow> 'k button_config list" where
  "abxyButtons kc =
     [ \<lparr> button_id = ''button-y'', label = ''Cancel (Y)'', keyCode = buttonY kc,
         imageFile = ''icon_button_y.png'', gridArea = ''1 / 2 / 2 / 3'' \<rparr>,
       \<lparr> button_id = ''button-x'', label = ''Action (X)'', keyCode = buttonX kc,
         imageFile = ''icon_button_x.png'', gridArea = ''2 / 1 / 3 / 2'' \<rparr>,
       \<lparr> button_id = ''button-b'', label = ''Cancel (B)'', keyCode = cancel kc,
         imageFile = ''icon_button_b.png'', gridArea = ''2 / 3 / 3 / 4'' \<rparr>,
       \<lparr> button_id = ''button-a'', label = ''Action (A)'', keyCode = action kc,
         imageFile = ''icon_button_a.png'', gridArea = ''3 / 2 / 4 / 3'' \<rparr> ]"

definition mountDPad :: "(string \<Rightarrow> string) \<Rightarrow> 'k key_codes \<Rightarrow> 'k document \<Rightarrow> 'k document" where
  "mountDPad resolve kc doc =
     (if getElementById DPAD_ID doc \<noteq> None then doc
      else
        let container = clusterContainer DPAD_ID ''style.left'';
            container = foldl (\<lambda>c config. appendChild c (createTouchButton resolve config))
                          container (dpadButtons kc)
        in doc\<lparr> body := appendChild (body doc) container \<rparr>)"

definition mountABXY :: "(string \<Rightarrow> string) \<Rightarrow> 'k key_codes \<Rightarrow> 'k document \<Rightarrow> 'k document" where
  "mountABXY resolve kc doc =
     (if getElementById ABXY_ID doc \<noteq> None then doc
      else
        let container = clusterContainer ABXY_ID ''style.right'';
            container = foldl (\<lambda>c config. appendChild c (createTouchButton resolve config))
                          container (abxyButtons kc)
        in doc\<lparr> body := appendChild (body doc) container \<rparr>)"

text \<open>How many element nodes of the document carry a given id, and how many there are at all.\<close>

definition countId :: "string \<Rightarrow> 'k document \<Rightarrow> nat" where
  "countId i doc = length (filter (\<lambda>e. elementId e = i) (allElements doc))"

definition nodeCount :: "'k document \<Rightarrow> nat" where
  "nodeCount doc = length (allElements doc)"

section \<open>Properties of the input bridge\<close>

subsection \<open>The invariant is kept\<close>

lemma clearRepeat_frame:
  "keysPressed (clearRepeat k s) = keysPressed s"
  "notifications (clearRepeat k s) = notifications s"
  "pointerToKey (clearRepeat k s) = pointerToKey s"
  "nextHandle (clearRepeat k s) = nextHandle s"
  "now (clearRepeat k s) = now s"
  "loaded (clearRepeat k s) = loaded s"
  "isLoading (clearRepeat k s) = isLoading s"
  by (simp_all add: clearRepeat_def clearTimeout_def clearInterval_def Let_def split: option.splits)

lemma clearRepeat_entry:
  "activeRepeats (clearRepeat k s) k' = (if k' = k then None else activeRepeats s k')"
  by (simp add: clearRepeat_def clearTimeout_def clearInterval_def Let_def split: option.splits)

lemma clearRepeat_timers:
  assumes "bridge_inv s"
  shows "timers (clearRepeat k s) h =
           (case timers s h of None \<Rightarrow> None
            | Some t \<Rightarrow> if callbackKey (callback t) = k then None else Some t)"
proof (cases "activeRepeats s k")
  case None
  have "\<And>t. timers s h = Some t \<Longrightarrow> callbackKey (callback t) \<noteq> k"
    using assms None unfolding bridge_inv_def by force
  then show ?thesis using None
    by (auto simp: clearRepeat_def split: option.splits)
next
  case (Some r)
  then obtain h0 t0 where h0: "timers s h0 = Some t0" "callbackKey (callback t0) = k" "r = entryOf h0 (callback t0)"
    using assms unfolding bridge_inv_def by blast
  have only: "\<And>h' t'. timers s h' = Some t' \<Longrightarrow> callbackKey (callback t') = k \<Longrightarrow> h' = h0"
  proof -
    fix h' t' assume a: "timers s h' = Some t'" "callbackKey (callback t') = k"
    then have "activeRepeats s k = Some (entryOf h' (callback t'))"
      using assms unfolding bridge_inv_def by blast
    then have "entryOf h' (callback t') = entryOf h0 (callback t0)" using Some h0 by simp
    then show "h' = h0" by (cases "callback t'"; cases "callback t0") auto
  qed
  have tm: "timers (clearRepeat k s) = (timers s)(h0 := None)"
    using Some h0 by (cases "callback t0") (auto simp: clearRepeat_def clearTimeout_def clearInterval_def Let_def)
  show ?thesis
  proof (cases "timers s h")
    case None
    then show ?thesis by (simp add: tm)
  next
    case (Some t)
    then show ?thesis using only[OF Some] h0 by (auto simp: tm)
  qed
qed

lemma clearRepeat_inv:
  assumes "bridge_inv s"
  shows "bridge_inv (clearRepeat k s)"
  unfolding bridge_inv_def
proof (intro conjI allI impI)
  show "distinct (keysPressed (clearRepeat k s))"
    using assms by (simp add: clearRepeat_frame bridge_inv_def)
next
  fix h t assume a: "timers (clearRepeat k s) h = Some t"
  then have b: "timers s h = Some t" "callbackKey (callback t) \<noteq> k"
    by (auto simp: clearRepeat_timers[OF assms] split: option.splits if_splits)
  show "h < nextHandle (clearRepeat k s)"
    using assms b unfolding bridge_inv_def by (simp add: clearRepeat_frame)
  show "(period t = None) = oneShot (callback t)"
    using assms b unfolding bridge_inv_def by blast
  show "activeRepeats (clearRepeat k s) (callbackKey (callback t)) = Some (entryOf h (callback t))"
    using assms b unfolding bridge_inv_def by (simp add: clearRepeat_entry)
next
  fix k' r assume a: "activeRepeats (clearRepeat k s) k' = Some r"
  then have b: "k' \<noteq> k" "activeRepeats s k' = Some r"
    by (auto simp: clearRepeat_entry split: if_splits)
  then obtain h t where "timers s h = Some t" "callbackKey (callback t) = k'" "r = entryOf h (callback t)"
    using assms unfolding bridge_inv_def by blast
  then have "timers (clearRepeat k s) h = Some t \<and> callbackKey (callback t) = k' \<and> r = entryOf h (callback t)"
    using b by (simp add: clearRepeat_timers[OF assms])
  then show "\<exists>h t. timers (clearRepeat k s) h = Some t \<and> callbackKey (callback t) = k' \<and> r = entryOf h (callback t)"
    by blast
qed


lemma notify_inv: "bridge_inv s \<Longrightarrow> bridge_inv (notify n s)"
  by (simp add: bridge_inv_def notify_def)

lemma push_inv: "bridge_inv s \<Longrightarrow> k \<notin> set (keysPressed s) \<Longrightarrow> bridge_inv (s\<lparr> keysPressed := keysPressed s @ [k] \<rparr>)"
  by (simp add: bridge_inv_def)

lemma remove1_inv: "bridge_inv s \<Longrightarrow> bridge_inv (s\<lparr> keysPressed := remove1 k (keysPressed s) \<rparr>)"
  by (simp add: bridge_inv_def)

lemma arm_inv:
  assumes inv: "bridge_inv s" and none: "activeRepeats s k = None"
    and cb: "callbackKey cb = k" and p: "(p = None) = oneShot cb"
  shows "bridge_inv (s\<lparr> timers := (timers s)(nextHandle s \<mapsto> \<lparr> callback = cb, due = d, period = p \<rparr>),
                        nextHandle := Suc (nextHandle s),
                        activeRepeats := (activeRepeats s)(k \<mapsto> entryOf (nextHandle s) cb) \<rparr>)"
    (is "bridge_inv ?s'")
  unfolding bridge_inv_def
proof (intro conjI allI impI)
  show "distinct (keysPressed ?s')" using inv by (simp add: bridge_inv_def)
next
  fix h t assume a: "timers ?s' h = Some t"
  show "h < nextHandle ?s'"
    using a inv unfolding bridge_inv_def by (auto simp: less_Suc_eq split: if_splits)
  show "(period t = None) = oneShot (callback t)"
    using a inv p unfolding bridge_inv_def by (auto split: if_splits)
  show "activeRepeats ?s' (callbackKey (callback t)) = Some (entryOf h (callback t))"
  proof (cases "h = nextHandle s")
    case True
    then show ?thesis using a cb by auto
  next
    case False
    then have b: "timers s h = Some t" using a by simp
    then have "activeRepeats s (callbackKey (callback t)) = Some (entryOf h (callback t))"
      using inv unfolding bridge_inv_def by blast
    then show ?thesis using none by auto
  qed
next
  fix k' r assume a: "activeRepeats ?s' k' = Some r"
  show "\<exists>h t. timers ?s' h = Some t \<and> callbackKey (callback t) = k' \<and> r = entryOf h (callback t)"
  proof (cases "k' = k")
    case True
    then have "timers ?s' (nextHandle s) = Some \<lparr> callback = cb, due = d, period = p \<rparr> \<and>
               callbackKey (callback \<lparr> callback = cb, due = d, period = p \<rparr>) = k' \<and>
               r = entryOf (nextHandle s) (callback \<lparr> callback = cb, due = d, period = p \<rparr>)"
      using a cb by auto
    then show ?thesis by blast
  next
    case False
    then have "activeRepeats s k' = Some r" using a by simp
    then obtain h t where b: "timers s h = Some t" "callbackKey (callback t) = k'" "r = entryOf h (callback t)"
      using inv unfolding bridge_inv_def by blast
    then have "h < nextHandle s" using inv unfolding bridge_inv_def by blast
    then have "timers ?s' h = Some t" using b by simp
    then show ?thesis using b by blast
  qed
qed

lemma pressKey_ready:
  assumes "isReady s"
  shows "pressKey k s =
     (let s3 = clearRepeat k (notify (onKeyPressedAndRepeat k)
                 (if k \<notin> set (keysPressed s)
                  then notify (onKeyPressed k) (s\<lparr> keysPressed := keysPressed s @ [k] \<rparr>) else s))
      in s3\<lparr> timers := (timers s3)(nextHandle s3 \<mapsto> \<lparr> callback = DelayCallback k, due = now s3 + REPEAT_DELAY, period = None \<rparr>),
             nextHandle := Suc (nextHandle s3),
             activeRepeats := (activeRepeats s3)(k \<mapsto> entryOf (nextHandle s3) (DelayCallback k)) \<rparr>)"
  using assms by (simp add: pressKey_def setTimeout_def Let_def)

lemma pressKey_inv:
  assumes "bridge_inv s"
  shows "bridge_inv (pressKey k s)"
proof (cases "isReady s")
  case False
  then show ?thesis using assms by (simp add: pressKey_def)
next
  case True
  let ?s2 = "notify (onKeyPressedAndRepeat k)
                 (if k \<notin> set (keysPressed s)
                  then notify (onKeyPressed k) (s\<lparr> keysPressed := keysPressed s @ [k] \<rparr>) else s)"
  have "bridge_inv ?s2" using assms by (auto intro: notify_inv push_inv)
  then have "bridge_inv (clearRepeat k ?s2)" by (rule clearRepeat_inv)
  moreover have "activeRepeats (clearRepeat k ?s2) k = None" by (simp add: clearRepeat_entry)
  ultimately show ?thesis
    unfolding pressKey_ready[OF True] Let_def
    by (intro arm_inv) simp_all
qed

lemma releaseKey_inv:
  assumes "bridge_inv s"
  shows "bridge_inv (releaseKey k s)"
  using assms clearRepeat_inv[OF assms, of k]
  by (auto simp: releaseKey_def Let_def intro!: notify_inv remove1_inv)


lemma reschedule_inv:
  assumes inv: "bridge_inv s" and t: "timers s h = Some t"
  shows "bridge_inv (s\<lparr> timers := (timers s)(h \<mapsto> t\<lparr> due := d \<rparr>) \<rparr>)" (is "bridge_inv ?s'")
  unfolding bridge_inv_def
proof (intro conjI allI impI)
  show "distinct (keysPressed ?s')" using inv by (simp add: bridge_inv_def)
next
  fix h' t' assume a: "timers ?s' h' = Some t'"
  then obtain t0 where b: "timers s h' = Some t0" "callback t' = callback t0" "period t' = period t0"
    using t by (cases "h' = h") auto
  show "h' < nextHandle ?s'" using b inv unfolding bridge_inv_def by auto
  show "(period t' = None) = oneShot (callback t')" using b inv unfolding bridge_inv_def by auto
  show "activeRepeats ?s' (callbackKey (callback t')) = Some (entryOf h' (callback t'))"
    using b inv unfolding bridge_inv_def by auto
next
  fix k r assume "activeRepeats ?s' k = Some r"
  then have "activeRepeats s k = Some r" by simp
  then obtain h' t' where b: "timers s h' = Some t'" "callbackKey (callback t') = k" "r = entryOf h' (callback t')"
    using inv unfolding bridge_inv_def by blast
  show "\<exists>h t. timers ?s' h = Some t \<and> callbackKey (callback t) = k \<and> r = entryOf h (callback t)"
  proof (cases "h' = h")
    case True
    then have "timers ?s' h = Some (t\<lparr> due := d \<rparr>) \<and> callbackKey (callback (t\<lparr> due := d \<rparr>)) = k
                 \<and> r = entryOf h (callback (t\<lparr> due := d \<rparr>))"
      using b t by simp
    then show ?thesis by blast
  next
    case False
    then have "timers ?s' h' = Some t'" using b by simp
    then show ?thesis using b by blast
  qed
qed

lemma clearRepeat_known:
  assumes "activeRepeats s k = Some (entryOf h cb)"
  shows "clearRepeat k s = s\<lparr> timers := (timers s)(h := None), activeRepeats := (activeRepeats s)(k := None) \<rparr>"
  using assms by (cases cb) (simp_all add: clearRepeat_def clearTimeout_def clearInterval_def Let_def)

lemma fire_delay:
  assumes inv: "bridge_inv s" and t: "timers s h = Some t" and due: "due t \<le> now s"
    and cb: "callback t = DelayCallback k"
  shows "fire h s =
     (let s3 = clearRepeat k s
      in s3\<lparr> timers := (timers s3)(nextHandle s3 \<mapsto> \<lparr> callback = IntervalCallback k, due = now s3 + REPEAT_INTERVAL, period = Some REPEAT_INTERVAL \<rparr>),
             nextHandle := Suc (nextHandle s3),
             activeRepeats := (activeRepeats s3)(k \<mapsto> entryOf (nextHandle s3) (IntervalCallback k)) \<rparr>)"
proof -
  have p: "period t = None" using inv t cb unfolding bridge_inv_def by auto
  have e: "activeRepeats s k = Some (entryOf h (DelayCallback k))"
    using inv t cb unfolding bridge_inv_def by force
  show ?thesis
    unfolding clearRepeat_known[OF e]
    using t due cb p by (simp add: fire_def setInterval_def Let_def)
qed

lemma fire_interval:
  assumes inv: "bridge_inv s" and t: "timers s h = Some t" and due: "due t \<le> now s"
    and cb: "callback t = IntervalCallback k"
  shows "\<exists>p. fire h s =
     (let s1 = s\<lparr> timers := (timers s)(h \<mapsto> t\<lparr> due := due t + p \<rparr>) \<rparr>
      in if isReady s \<and> k \<in> set (keysPressed s) then notify (onKeyPressedAndRepeat k) s1 else s1)"
proof -
  have "period t \<noteq> None" using inv t cb unfolding bridge_inv_def by auto
  then obtain p where "period t = Some p" by blast
  then have "fire h s =
     (let s1 = s\<lparr> timers := (timers s)(h \<mapsto> t\<lparr> due := due t + p \<rparr>) \<rparr>
      in if isReady s \<and> k \<in> set (keysPressed s) then notify (onKeyPressedAndRepeat k) s1 else s1)"
    using t due cb by (simp add: fire_def Let_def isReady_def)
  then show ?thesis by blast
qed

lemma fire_inv:
  assumes inv: "bridge_inv s"
  shows "bridge_inv (fire h s)"
proof (cases "timers s h")
  case None
  then show ?thesis using inv by (simp add: fire_def)
next
  case (Some t)
  show ?thesis
  proof (cases "now s < due t")
    case True
    then show ?thesis using inv Some by (simp add: fire_def)
  next
    case False
    then have due: "due t \<le> now s" by simp
    show ?thesis
    proof (cases "callback t")
      case (DelayCallback k)
      have "bridge_inv (clearRepeat k s)" using inv by (rule clearRepeat_inv)
      moreover have "activeRepeats (clearRepeat k s) k = None" by (simp add: clearRepeat_entry)
      ultimately show ?thesis
        unfolding fire_delay[OF inv Some due DelayCallback] Let_def
        by (intro arm_inv) simp_all
    next
      case (IntervalCallback k)
      from fire_interval[OF inv Some due IntervalCallback] obtain p where
        f: "fire h s =
         (let s1 = s\<lparr> timers := (timers s)(h \<mapsto> t\<lparr> due := due t + p \<rparr>) \<rparr>
          in if isReady s \<and> k \<in> set (keysPressed s) then notify (onKeyPressedAndRepeat k) s1 else s1)"
        by blast
      show ?thesis unfolding f Let_def
        using reschedule_inv[OF inv Some, of "due t + p"] by (auto intro: notify_inv)
    qed
  qed
qed

lemma pointerToKey_inv: "bridge_inv s \<Longrightarrow> bridge_inv (s\<lparr> pointerToKey := m \<rparr>)"
  by (simp add: bridge_inv_def)

lemma step_inv:
  assumes "bridge_inv s"
  shows "bridge_inv (step e s)"
proof (cases e)
  case (PointerDown k pid)
  then show ?thesis using assms
    by (simp add: handlePointerDown_def pressKey_inv pointerToKey_inv)
next
  case (PointerUp pid)
  then show ?thesis using assms
    by (simp add: handlePointerUp_def releaseKey_inv pointerToKey_inv split: option.splits)
next
  case (DocumentPointerUp pid)
  then show ?thesis using assms
    by (simp add: globalPointerUp_def releaseKey_inv pointerToKey_inv split: option.splits)
next
  case (TimerFires h)
  then show ?thesis using assms by (simp add: fire_inv)
next
  case (Elapse d)
  then show ?thesis using assms by (simp add: bridge_inv_def)
next
  case (HostLoaded b)
  then show ?thesis using assms by (simp add: bridge_inv_def)
next
  case (HostLoading b)
  then show ?thesis using assms by (simp add: bridge_inv_def)
qed

lemma run_inv: "bridge_inv s \<Longrightarrow> bridge_inv (run es s)"
  unfolding run_def by (induction es arbitrary: s) (simp_all add: step_inv)

lemma initial_inv: "bridge_inv initial"
  by (simp add: bridge_inv_def initial_def)

subsection \<open>What \<open>pressKey\<close> and \<open>releaseKey\<close> do to each field\<close>

lemma pressKey_flags:
  "loaded (pressKey k s) = loaded s" "isLoading (pressKey k s) = isLoading s"
  "now (pressKey k s) = now s" "pointerToKey (pressKey k s) = pointerToKey s"
  by (simp_all add: pressKey_def setTimeout_def Let_def clearRepeat_frame notify_def split: prod.splits)

lemma pressKey_isReady: "isReady (pressKey k s) = isReady s"
  by (simp add: isReady_def pressKey_flags)

lemma pressKey_keysPressed:
  "keysPressed (pressKey k s) =
     (if isReady s \<and> k \<notin> set (keysPressed s) then keysPressed s @ [k] else keysPressed s)"
  by (simp add: pressKey_def setTimeout_def Let_def clearRepeat_frame notify_def)

lemma pressKey_notifications:
  "notifications (pressKey k s) =
     (if isReady s
      then notifications s @ (if k \<in> set (keysPressed s) then [] else [onKeyPressed k]) @ [onKeyPressedAndRepeat k]
      else notifications s)"
  by (simp add: pressKey_def setTimeout_def Let_def clearRepeat_frame notify_def)

lemma pressKey_nextHandle:
  "nextHandle (pressKey k s) = (if isReady s then Suc (nextHandle s) else nextHandle s)"
  by (simp add: pressKey_def setTimeout_def Let_def clearRepeat_frame notify_def)

lemma pressKey_entry:
  "isReady s \<Longrightarrow> activeRepeats (pressKey k s) k' =
     (if k' = k then Some \<lparr> delay = Some (nextHandle s), interval = None \<rparr> else activeRepeats s k')"
  by (simp add: pressKey_ready Let_def clearRepeat_frame clearRepeat_entry notify_def)

lemma pressKey_timers:
  assumes "bridge_inv s" "isReady s"
  shows "timers (pressKey k s) h =
     (if h = nextHandle s
      then Some \<lparr> callback = DelayCallback k, due = now s + REPEAT_DELAY, period = None \<rparr>
      else case timers s h of None \<Rightarrow> None
           | Some t \<Rightarrow> if callbackKey (callback t) = k then None else Some t)"
proof -
  let ?s2 = "notify (onKeyPressedAndRepeat k)
                 (if k \<notin> set (keysPressed s)
                  then notify (onKeyPressed k) (s\<lparr> keysPressed := keysPressed s @ [k] \<rparr>) else s)"
  have inv2: "bridge_inv ?s2" using assms(1) by (auto intro: notify_inv push_inv)
  have t2: "timers ?s2 = timers s" "nextHandle ?s2 = nextHandle s" "now ?s2 = now s"
    by (simp_all add: notify_def)
  show ?thesis
    unfolding pressKey_ready[OF assms(2)] Let_def
    by (simp add: clearRepeat_timers[OF inv2] clearRepeat_frame t2)
qed

lemma timersFor_pressKey:
  assumes "bridge_inv s" "isReady s"
  shows "timersFor k (pressKey k s) = {nextHandle s}"
proof -
  have "\<And>t. timers s (nextHandle s) \<noteq> Some t"
    using assms(1) unfolding bridge_inv_def by (metis less_irrefl)
  then show ?thesis
    unfolding timersFor_def
    by (auto simp: pressKey_timers[OF assms] split: option.splits if_splits)
qed

lemma releaseKey_frame:
  "pointerToKey (releaseKey k s) = pointerToKey s" "loaded (releaseKey k s) = loaded s"
  "isLoading (releaseKey k s) = isLoading s"
  by (simp_all add: releaseKey_def Let_def notify_def clearRepeat_frame)

lemma releaseKey_notifications:
  "notifications (releaseKey k s) = (if isReady s then notifications s @ [onKeyReleased k] else notifications s)"
  by (simp add: releaseKey_def Let_def notify_def clearRepeat_frame)

lemma releaseKey_post:
  assumes "bridge_inv s" "isReady s"
  shows "k \<notin> set (keysPressed (releaseKey k s))"
    and "activeRepeats (releaseKey k s) k = None"
    and "timersFor k (releaseKey k s) = {}"
proof -
  have d: "distinct (keysPressed s)" using assms(1) by (simp add: bridge_inv_def)
  show "k \<notin> set (keysPressed (releaseKey k s))"
    using assms(2) d by (simp add: releaseKey_def Let_def notify_def clearRepeat_frame)
  show "activeRepeats (releaseKey k s) k = None"
    using assms(2) by (simp add: releaseKey_def Let_def notify_def clearRepeat_entry)
  show "timersFor k (releaseKey k s) = {}"
    using assms(2)
    by (auto simp: timersFor_def releaseKey_def Let_def notify_def clearRepeat_timers[OF assms(1)]
          split: option.splits if_splits)
qed

lemma count_list_distinct: "distinct xs \<Longrightarrow> x \<in> set xs \<Longrightarrow> count_list xs x = 1"
  by (induction xs) auto

lemma pointerUp_untracked:
  assumes "pointerToKey s pid = None" and "set es \<subseteq> {PointerUp pid, DocumentPointerUp pid}"
  shows "run es s = s"
  using assms unfolding run_def
  by (induction es) (auto simp: handlePointerUp_def globalPointerUp_def)

lemmas eval_defs = run_def initial_def handlePointerDown_def handlePointerUp_def globalPointerUp_def
  pressKey_def releaseKey_def clearRepeat_def setTimeout_def setInterval_def clearTimeout_def clearInterval_def
  notify_def isReady_def fire_def Let_def REPEAT_DELAY_def REPEAT_INTERVAL_def

subsection \<open>Press, repeat and release\<close>

text \<open>
  Claim C1. For every key code \<open>k\<close>, when the host is ready, calling \<open>pressKey k\<close> and then
  \<open>releaseKey k\<close> leaves the pressed-keys list without \<open>k\<close>, leaves no entry for \<open>k\<close> in
  \<open>activeRepeats\<close>, and leaves no delay or interval timer for \<open>k\<close> registered with the
  window. The state before the press is any state that satisfies the invariant, as every
  state of a run from \<open>initial\<close> does (\<open>run_inv\<close>, \<open>initial_inv\<close>).
\<close>

theorem press_then_release:
  assumes "bridge_inv s" and "isReady s"
  shows "k \<notin> set (keysPressed (releaseKey k (pressKey k s))) \<and>
         activeRepeats (releaseKey k (pressKey k s)) k = None \<and>
         timersFor k (releaseKey k (pressKey k s)) = {}"
proof -
  have "bridge_inv (pressKey k s)" using assms(1) by (rule pressKey_inv)
  moreover have "isReady (pressKey k s)" using assms(2) by (simp add: pressKey_isReady)
  ultimately show ?thesis by (simp add: releaseKey_post)
qed

theorem press_then_release_witness:
  "bridge_inv (run [HostLoaded True, PointerDown 87 1] initial) \<and>
   isReady (run [HostLoaded True, PointerDown 87 1] initial) \<and>
   13 \<notin> set (keysPressed (releaseKey 13 (pressKey 13 (run [HostLoaded True, PointerDown 87 1] initial)))) \<and>
   activeRepeats (releaseKey 13 (pressKey 13 (run [HostLoaded True, PointerDown 87 1] initial))) 13 = None \<and>
   timersFor 13 (releaseKey 13 (pressKey 13 (run [HostLoaded True, PointerDown 87 1] initial))) = {}"
proof -
  have i: "bridge_inv (run [HostLoaded True, PointerDown 87 1] initial)"
    by (rule run_inv[OF initial_inv])
  have r: "isReady (run [HostLoaded True, PointerDown 87 1] initial)"
    by (simp add: eval_defs)
  show ?thesis using press_then_release[OF i r, of 13] i r by simp
qed

text \<open>
  Claim C2. A call of \<open>pressKey k\<close> while the host is ready sends \<open>onKeyPressed k\<close> once
  exactly when \<open>k\<close> was not in the pressed-keys list, appending \<open>k\<close> to the list in that
  case, and sends \<open>onKeyPressedAndRepeat k\<close> once in either case; nothing else is sent.
\<close>

theorem press_notifies:
  assumes "isReady s"
  shows "notifications (pressKey k s) =
           notifications s @ (if k \<in> set (keysPressed s) then [] else [onKeyPressed k]) @ [onKeyPressedAndRepeat k]
         \<and> keysPressed (pressKey k s) = (if k \<in> set (keysPressed s) then keysPressed s else keysPressed s @ [k])"
  using assms by (simp add: pressKey_notifications pressKey_keysPressed)

theorem press_notifies_witness:
  "isReady (run [HostLoaded True] initial) \<and>
   notifications (pressKey 13 (run [HostLoaded True] initial)) = [onKeyPressed 13, onKeyPressedAndRepeat 13] \<and>
   keysPressed (pressKey 13 (run [HostLoaded True] initial)) = [13] \<and>
   notifications (pressKey 13 (pressKey 13 (run [HostLoaded True] initial))) =
     [onKeyPressed 13, onKeyPressedAndRepeat 13, onKeyPressedAndRepeat 13]"
proof -
  have r: "isReady (run [HostLoaded True] initial)" by (simp add: eval_defs)
  have r2: "isReady (pressKey 13 (run [HostLoaded True] initial))" using r by (simp add: pressKey_isReady)
  have k: "keysPressed (run [HostLoaded True] initial) = []" "notifications (run [HostLoaded True] initial) = []"
    by (simp_all add: eval_defs)
  show ?thesis
    using press_notifies[OF r, of 13] press_notifies[OF r2, of 13] r k by simp
qed

text \<open>
  Claim C3. Two calls of \<open>pressKey k\<close> while ready, with no release between them and \<open>d\<close>
  milliseconds apart, leave exactly one occurrence of \<open>k\<close> in the pressed-keys list. The
  timer the first call armed (handle \<open>nextHandle s\<close>, due 180 ms after the first call) is
  no longer registered after the second call; the second call registers a new one-shot
  timer for \<open>k\<close>, due 180 ms after the second call, which is the only timer of \<open>k\<close> and the
  \<open>delay\<close> of its entry.
\<close>

theorem press_twice:
  assumes "bridge_inv s" and "isReady s"
  shows "count_list (keysPressed (pressKey k (step (Elapse d) (pressKey k s)))) k = 1 \<and>
         timers (pressKey k s) (nextHandle s)
           = Some \<lparr> callback = DelayCallback k, due = now s + REPEAT_DELAY, period = None \<rparr> \<and>
         timers (pressKey k (step (Elapse d) (pressKey k s))) (nextHandle s) = None \<and>
         timers (pressKey k (step (Elapse d) (pressKey k s))) (nextHandle (pressKey k s))
           = Some \<lparr> callback = DelayCallback k, due = now s + d + REPEAT_DELAY, period = None \<rparr> \<and>
         timersFor k (pressKey k (step (Elapse d) (pressKey k s))) = {nextHandle (pressKey k s)} \<and>
         activeRepeats (pressKey k (step (Elapse d) (pressKey k s))) k
           = Some \<lparr> delay = Some (nextHandle (pressKey k s)), interval = None \<rparr> \<and>
         REPEAT_DELAY = 180"
proof -
  define s1 where "s1 = pressKey k s"
  define s2 where "s2 = pressKey k (step (Elapse d) s1)"
  let ?e = "s1\<lparr> now := now s1 + d \<rparr>"
  have inv1: "bridge_inv s1" unfolding s1_def using assms(1) by (rule pressKey_inv)
  have inve: "bridge_inv ?e" using step_inv[OF inv1, of "Elapse d"] by simp
  have s2: "s2 = pressKey k ?e" by (simp add: s2_def)
  have re: "isReady ?e" using assms(2) by (simp add: s1_def isReady_def pressKey_flags)
  have nh: "nextHandle ?e = nextHandle s1" "nextHandle s1 = Suc (nextHandle s)" "now ?e = now s + d"
    using assms(2) by (simp_all add: s1_def pressKey_nextHandle pressKey_flags)
  have t1: "timers s1 (nextHandle s) = Some \<lparr> callback = DelayCallback k, due = now s + REPEAT_DELAY, period = None \<rparr>"
    unfolding s1_def by (simp add: pressKey_timers[OF assms(1,2)])
  have k1: "k \<in> set (keysPressed s1)" "distinct (keysPressed s1)"
    using assms(2) inv1 by (auto simp: s1_def pressKey_keysPressed bridge_inv_def)
  have "keysPressed s2 = keysPressed s1" unfolding s2 using k1 by (simp add: pressKey_keysPressed)
  then have c: "count_list (keysPressed s2) k = 1" using k1 by (simp add: count_list_distinct)
  have t2: "timers s2 (nextHandle s) = None"
    unfolding s2 by (simp add: pressKey_timers[OF inve re] nh t1)
  have t3: "timers s2 (nextHandle s1) = Some \<lparr> callback = DelayCallback k, due = now s + d + REPEAT_DELAY, period = None \<rparr>"
    unfolding s2 by (simp add: pressKey_timers[OF inve re] nh)
  have t4: "timersFor k s2 = {nextHandle s1}"
    unfolding s2 using timersFor_pressKey[OF inve re, of k] by (simp add: nh)
  have t5: "activeRepeats s2 k = Some \<lparr> delay = Some (nextHandle s1), interval = None \<rparr>"
    unfolding s2 using pressKey_entry[OF re, of k k] by (simp add: nh)
  have "count_list (keysPressed s2) k = 1 \<and>
        timers s1 (nextHandle s) = Some \<lparr> callback = DelayCallback k, due = now s + REPEAT_DELAY, period = None \<rparr> \<and>
        timers s2 (nextHandle s) = None \<and>
        timers s2 (nextHandle s1) = Some \<lparr> callback = DelayCallback k, due = now s + d + REPEAT_DELAY, period = None \<rparr> \<and>
        timersFor k s2 = {nextHandle s1} \<and>
        activeRepeats s2 k = Some \<lparr> delay = Some (nextHandle s1), interval = None \<rparr> \<and>
        REPEAT_DELAY = 180"
    using c t1 t2 t3 t4 t5 by (simp add: REPEAT_DELAY_def)
  then show ?thesis unfolding s2_def s1_def .
qed

theorem press_twice_witness:
  "bridge_inv (run [HostLoaded True] initial) \<and> isReady (run [HostLoaded True] initial) \<and>
   keysPressed (pressKey 13 (step (Elapse 100) (pressKey 13 (run [HostLoaded True] initial)))) = [13] \<and>
   timers (pressKey 13 (step (Elapse 100) (pressKey 13 (run [HostLoaded True] initial)))) 1 = None \<and>
   timers (pressKey 13 (step (Elapse 100) (pressKey 13 (run [HostLoaded True] initial)))) 2
     = Some \<lparr> callback = DelayCallback 13, due = 280, period = None \<rparr> \<and>
   timersFor 13 (pressKey 13 (step (Elapse 100) (pressKey 13 (run [HostLoaded True] initial)))) = {2}"
proof -
  have i: "bridge_inv (run [HostLoaded True] initial)" by (rule run_inv[OF initial_inv])
  have r: "isReady (run [HostLoaded True] initial)" by (simp add: eval_defs)
  have n: "nextHandle (run [HostLoaded True] initial) = 1" "now (run [HostLoaded True] initial) = 0"
    "nextHandle (pressKey 13 (run [HostLoaded True] initial)) = 2"
    by (simp_all add: eval_defs)
  have k: "keysPressed (pressKey 13 (step (Elapse 100) (pressKey 13 (run [HostLoaded True] initial)))) = [13]"
    by (simp add: eval_defs)
  show ?thesis using press_twice[OF i r, of 13 100] i r n k by (simp add: REPEAT_DELAY_def)
qed

text \<open>
  Claim C5. A call of \<open>pressKey k\<close> while the host is not ready returns the state it was
  given: the pressed-keys list, the timer table, \<open>activeRepeats\<close> and the notifications sent
  to the host are all unchanged.
\<close>

theorem press_not_ready:
  assumes "\<not> isReady s"
  shows "pressKey k s = s"
  using assms by (simp add: pressKey_def)

theorem press_not_ready_witness:
  "\<not> isReady (run [HostLoaded True, HostLoading True] initial) \<and>
   pressKey 13 (run [HostLoaded True, HostLoading True] initial) = run [HostLoaded True, HostLoading True] initial"
proof -
  have r: "\<not> isReady (run [HostLoaded True, HostLoading True] initial)" by (simp add: eval_defs)
  show ?thesis using press_not_ready[OF r, of 13] r by simp
qed

text \<open>
  Claim C6. When the window runs a timer that holds the interval closure of key code \<open>k\<close>,
  the tick sends \<open>onKeyPressedAndRepeat k\<close> only if, at that moment, the host is ready and
  \<open>k\<close> is in the pressed-keys list; in every other state the tick sends nothing.
\<close>

theorem interval_tick_guarded:
  assumes "timers s h = Some t" and "callback t = IntervalCallback k"
  shows "notifications (fire h s) =
           (if due t \<le> now s \<and> isReady s \<and> k \<in> set (keysPressed s)
            then notifications s @ [onKeyPressedAndRepeat k] else notifications s)"
  using assms by (auto simp: fire_def isReady_def notify_def split: option.splits)

theorem interval_tick_guarded_witness:
  "timers (run [HostLoaded True, PointerDown 13 1, Elapse 180, TimerFires 1, Elapse 60, HostLoading True] initial) 2
     = Some \<lparr> callback = IntervalCallback 13, due = 240, period = Some 60 \<rparr> \<and>
   callback \<lparr> callback = IntervalCallback 13, due = 240, period = Some 60 \<rparr> = IntervalCallback 13 \<and>
   notifications (fire 2 (run [HostLoaded True, PointerDown 13 1, Elapse 180, TimerFires 1, Elapse 60, HostLoading True] initial))
     = notifications (run [HostLoaded True, PointerDown 13 1, Elapse 180, TimerFires 1, Elapse 60, HostLoading True] initial) \<and>
   notifications (fire 2 (run [HostLoaded True, PointerDown 13 1, Elapse 180, TimerFires 1, Elapse 60] initial))
     = notifications (run [HostLoaded True, PointerDown 13 1, Elapse 180, TimerFires 1, Elapse 60] initial) @ [onKeyPressedAndRepeat 13]"
proof -
  let ?s = "run [HostLoaded True, PointerDown 13 1, Elapse 180, TimerFires 1, Elapse 60, HostLoading True] initial"
  let ?r = "run [HostLoaded True, PointerDown 13 1, Elapse 180, TimerFires 1, Elapse 60] initial"
  let ?t = "\<lparr> callback = IntervalCallback 13, due = 240, period = Some 60 \<rparr>"
  have t: "timers ?s 2 = Some ?t" by (simp add: eval_defs)
  have t': "timers ?r 2 = Some ?t" by (simp add: eval_defs)
  have c: "callback ?t = IntervalCallback 13" by simp
  have n: "\<not> isReady ?s" by (simp add: eval_defs)
  have y: "isReady ?r" "13 \<in> set (keysPressed ?r)" "now ?r = 240" by (simp_all add: eval_defs)
  show ?thesis
    using interval_tick_guarded[OF t c] interval_tick_guarded[OF t' c] t n y by simp
qed

text \<open>
  Claim C4, as stated, says that \<open>releaseKey k\<close> clears the timers of \<open>k\<close> whatever the
  host's readiness. \<open>releaseKey\<close> returns at its readiness guard before \<open>clearRepeat\<close>: a
  key pressed while ready and released while a scene is loading keeps its entry in
  \<open>activeRepeats\<close> and its timer, also when the release comes through the button's
  pointer-up handler.
\<close>

theorem release_not_ready_counterexample:
  "activeRepeats (releaseKey 13 (run [HostLoaded True, PointerDown 13 1, HostLoading True] initial)) 13
     = Some \<lparr> delay = Some 1, interval = None \<rparr> \<and>
   timers (releaseKey 13 (run [HostLoaded True, PointerDown 13 1, HostLoading True] initial)) 1
     = Some \<lparr> callback = DelayCallback 13, due = 180, period = None \<rparr> \<and>
   timers (run [HostLoaded True, PointerDown 13 1, HostLoading True, PointerUp 1] initial) 1
     = Some \<lparr> callback = DelayCallback 13, due = 180, period = None \<rparr>"
  by (simp add: eval_defs)

text \<open>
  Claim C4, amended. Every call of \<open>releaseKey k\<close> made while the host is ready, directly
  or through the button's handler (pointer-up, pointer-cancel, lost capture) or the
  document's pointer-up listener for a tracked pointer, leaves no entry for \<open>k\<close> in
  \<open>activeRepeats\<close> and no timer of \<open>k\<close> registered. While the host is not ready
  \<open>releaseKey k\<close> changes nothing.
\<close>

theorem release_clears_when_ready:
  assumes "bridge_inv s"
  shows "(isReady s \<longrightarrow> activeRepeats (releaseKey k s) k = None \<and> timersFor k (releaseKey k s) = {}) \<and>
         (isReady s \<and> pointerToKey s pid = Some k \<and> e \<in> {PointerUp pid, DocumentPointerUp pid} \<longrightarrow>
            activeRepeats (step e s) k = None \<and> timersFor k (step e s) = {}) \<and>
         (\<not> isReady s \<longrightarrow> releaseKey k s = s)"
proof (intro conjI impI)
  assume "isReady s"
  then show "activeRepeats (releaseKey k s) k = None" "timersFor k (releaseKey k s) = {}"
    using assms by (simp_all add: releaseKey_post)
next
  assume a: "isReady s \<and> pointerToKey s pid = Some k \<and> e \<in> {PointerUp pid, DocumentPointerUp pid}"
  let ?s' = "s\<lparr> pointerToKey := (pointerToKey s)(pid := None) \<rparr>"
  have "bridge_inv ?s'" "isReady ?s'" using assms a by (simp_all add: pointerToKey_inv isReady_def)
  then have "activeRepeats (releaseKey k ?s') k = None \<and> timersFor k (releaseKey k ?s') = {}"
    by (simp add: releaseKey_post)
  moreover have "step e s = releaseKey k ?s'"
    using a by (auto simp: handlePointerUp_def globalPointerUp_def)
  ultimately show "activeRepeats (step e s) k = None" "timersFor k (step e s) = {}" by simp_all
next
  assume "\<not> isReady s"
  then show "releaseKey k s = s" by (simp add: releaseKey_def)
qed

theorem release_clears_when_ready_witness:
  "bridge_inv (run [HostLoaded True, PointerDown 13 1] initial) \<and>
   isReady (run [HostLoaded True, PointerDown 13 1] initial) \<and>
   pointerToKey (run [HostLoaded True, PointerDown 13 1] initial) 1 = Some 13 \<and>
   activeRepeats (releaseKey 13 (run [HostLoaded True, PointerDown 13 1] initial)) 13 = None \<and>
   timersFor 13 (releaseKey 13 (run [HostLoaded True, PointerDown 13 1] initial)) = {} \<and>
   timersFor 13 (step (DocumentPointerUp 1) (run [HostLoaded True, PointerDown 13 1] initial)) = {} \<and>
   bridge_inv (run [HostLoaded True, PointerDown 13 1, HostLoading True] initial) \<and>
   \<not> isReady (run [HostLoaded True, PointerDown 13 1, HostLoading True] initial) \<and>
   releaseKey 13 (run [HostLoaded True, PointerDown 13 1, HostLoading True] initial)
     = run [HostLoaded True, PointerDown 13 1, HostLoading True] initial"
proof -
  let ?s = "run [HostLoaded True, PointerDown 13 1] initial"
  let ?n = "run [HostLoaded True, PointerDown 13 1, HostLoading True] initial"
  have i: "bridge_inv ?s" "bridge_inv ?n" by (rule run_inv[OF initial_inv])+
  have r: "isReady ?s" "pointerToKey ?s 1 = Some 13" "\<not> isReady ?n" by (simp_all add: eval_defs)
  show ?thesis
    using release_clears_when_ready[OF i(1), of 13 1 "DocumentPointerUp 1"]
      release_clears_when_ready[OF i(2), of 13 1 "DocumentPointerUp 1"] i r by simp
qed

text \<open>
  Claim C8, as stated, says that the key code is released whenever the pointer-up handlers
  run for a tracked pointer. The one call of \<open>releaseKey\<close> they make returns at its
  readiness guard when the host is not ready: after a press while ready and both handlers
  while a scene is loading, the pointer's entry is gone, yet the key code is still in the
  pressed-keys list, its timer is still registered, and the host was never told of a
  release.
\<close>

theorem pointer_up_not_ready_counterexample:
  "pointerToKey (run [HostLoaded True, PointerDown 13 1, HostLoading True] initial) 1 = Some 13 \<and>
   pointerToKey (run [HostLoaded True, PointerDown 13 1, HostLoading True, PointerUp 1, DocumentPointerUp 1] initial) 1
     = None \<and>
   keysPressed (run [HostLoaded True, PointerDown 13 1, HostLoading True, PointerUp 1, DocumentPointerUp 1] initial)
     = [13] \<and>
   notifications (run [HostLoaded True, PointerDown 13 1, HostLoading True, PointerUp 1, DocumentPointerUp 1] initial)
     = [onKeyPressed 13, onKeyPressedAndRepeat 13] \<and>
   timers (run [HostLoaded True, PointerDown 13 1, HostLoading True, PointerUp 1, DocumentPointerUp 1] initial) 1
     = Some \<lparr> callback = DelayCallback 13, due = 180, period = None \<rparr>"
  by (simp add: eval_defs)

text \<open>
  Claim C8, amended. Once a pointer is tracked for key code \<open>k\<close>, any non-empty sequence of
  pointer-up handler runs for that pointer (the button's handler and the document's
  listener, in either order, any number of times) amounts to one call of \<open>releaseKey k\<close>
  on the state with the pointer's entry removed: the first handler removes the entry and
  calls \<open>releaseKey\<close>, every later one finds no entry and does nothing. While the host is
  ready that call releases the key code once: the host receives \<open>onKeyReleased k\<close> once,
  the first occurrence of \<open>k\<close> leaves the pressed-keys list, which then holds no \<open>k\<close>,
  and no entry and no timer of \<open>k\<close> remains. While the host is not ready only the
  pointer's entry is removed.
\<close>

theorem pointer_up_releases_once:
  assumes "bridge_inv s" and "pointerToKey s pid = Some k" and "es \<noteq> []"
    and "set es \<subseteq> {PointerUp pid, DocumentPointerUp pid}"
  shows "run es s = releaseKey k (s\<lparr> pointerToKey := (pointerToKey s)(pid := None) \<rparr>) \<and>
         pointerToKey (run es s) = (pointerToKey s)(pid := None) \<and>
         (isReady s \<longrightarrow>
            notifications (run es s) = notifications s @ [onKeyReleased k] \<and>
            keysPressed (run es s) = remove1 k (keysPressed s) \<and>
            k \<notin> set (keysPressed (run es s)) \<and>
            activeRepeats (run es s) k = None \<and>
            timersFor k (run es s) = {}) \<and>
         (\<not> isReady s \<longrightarrow> run es s = s\<lparr> pointerToKey := (pointerToKey s)(pid := None) \<rparr>)"
proof -
  let ?p = "s\<lparr> pointerToKey := (pointerToKey s)(pid := None) \<rparr>"
  let ?s' = "releaseKey k ?p"
  obtain e es' where es: "es = e # es'" using assms(3) by (cases es) auto
  have first: "step e s = ?s'"
    using assms(2,4) es by (auto simp: handlePointerUp_def globalPointerUp_def)
  have "pointerToKey ?s' pid = None" by (simp add: releaseKey_frame)
  then have "run es' ?s' = ?s'" using assms(4) es by (intro pointerUp_untracked) auto
  then have r: "run es s = ?s'" using first by (simp add: es run_def)
  have inv: "bridge_inv ?p" using assms(1) by (rule pointerToKey_inv)
  have rdy: "isReady ?p = isReady s" by (simp add: isReady_def)
  have a: "pointerToKey ?s' = (pointerToKey s)(pid := None)" by (simp add: releaseKey_frame)
  have b: "isReady s \<longrightarrow>
            notifications ?s' = notifications s @ [onKeyReleased k] \<and>
            keysPressed ?s' = remove1 k (keysPressed s) \<and>
            k \<notin> set (keysPressed ?s') \<and>
            activeRepeats ?s' k = None \<and>
            timersFor k ?s' = {}"
  proof
    assume "isReady s"
    then have ready: "isReady ?p" by (simp add: rdy)
    have "keysPressed ?s' = remove1 k (keysPressed s)"
      using ready by (simp add: releaseKey_def Let_def notify_def clearRepeat_frame)
    then show "notifications ?s' = notifications s @ [onKeyReleased k] \<and>
            keysPressed ?s' = remove1 k (keysPressed s) \<and>
            k \<notin> set (keysPressed ?s') \<and>
            activeRepeats ?s' k = None \<and>
            timersFor k ?s' = {}"
      using releaseKey_post[OF inv ready, of k] ready
      by (simp add: releaseKey_notifications)
  qed
  have c: "\<not> isReady s \<longrightarrow> ?s' = ?p" by (simp add: releaseKey_def rdy)
  show ?thesis unfolding r using a b c by blast
qed

theorem pointer_up_releases_once_witness:
  "bridge_inv (run [HostLoaded True, PointerDown 13 1] initial) \<and>
   pointerToKey (run [HostLoaded True, PointerDown 13 1] initial) 1 = Some 13 \<and>
   isReady (run [HostLoaded True, PointerDown 13 1] initial) \<and>
   [PointerUp 1, DocumentPointerUp 1] \<noteq> [] \<and>
   set [PointerUp 1, DocumentPointerUp 1] \<subseteq> {PointerUp 1, DocumentPointerUp 1} \<and>
   notifications (run [PointerUp 1, DocumentPointerUp 1] (run [HostLoaded True, PointerDown 13 1] initial))
     = [onKeyPressed 13, onKeyPressedAndRepeat 13, onKeyReleased 13] \<and>
   keysPressed (run [PointerUp 1, DocumentPointerUp 1] (run [HostLoaded True, PointerDown 13 1] initial)) = [] \<and>
   timersFor 13 (run [PointerUp 1, DocumentPointerUp 1] (run [HostLoaded True, PointerDown 13 1] initial)) = {} \<and>
   notifications (run [DocumentPointerUp 1] (run [HostLoaded True, PointerDown 13 1] initial))
     = [onKeyPressed 13, onKeyPressedAndRepeat 13, onKeyReleased 13] \<and>
   bridge_inv (run [HostLoaded True, PointerDown 13 1, HostLoading True] initial) \<and>
   pointerToKey (run [HostLoaded True, PointerDown 13 1, HostLoading True] initial) 1 = Some 13 \<and>
   \<not> isReady (run [HostLoaded True, PointerDown 13 1, HostLoading True] initial) \<and>
   keysPressed (run [DocumentPointerUp 1, PointerUp 1] (run [HostLoaded True, PointerDown 13 1, HostLoading True] initial))
     = [13]"
proof -
  let ?s = "run [HostLoaded True, PointerDown 13 1] initial"
  let ?n = "run [HostLoaded True, PointerDown 13 1, HostLoading True] initial"
  have i: "bridge_inv ?s" "bridge_inv ?n" by (rule run_inv[OF initial_inv])+
  have p: "pointerToKey ?s 1 = Some 13" by (simp add: eval_defs)
  have q: "pointerToKey ?n 1 = Some 13" by (simp add: eval_defs)
  have r: "isReady ?s" "notifications ?s = [onKeyPressed 13, onKeyPressedAndRepeat 13]"
    "keysPressed ?s = [13]" "\<not> isReady ?n" "keysPressed ?n = [13]"
    by (simp_all add: eval_defs)
  have e1: "[PointerUp 1, DocumentPointerUp 1] \<noteq> []" by simp
  have e2: "set [PointerUp 1, DocumentPointerUp 1] \<subseteq> {PointerUp 1, DocumentPointerUp 1}" by simp
  have f1: "[DocumentPointerUp 1] \<noteq> []" by simp
  have f2: "set [DocumentPointerUp 1] \<subseteq> {PointerUp 1, DocumentPointerUp 1}" by simp
  have g1: "[DocumentPointerUp 1, PointerUp 1] \<noteq> []" by simp
  have g2: "set [DocumentPointerUp 1, PointerUp 1] \<subseteq> {PointerUp 1, DocumentPointerUp 1}" by auto
  have w1: "notifications (run [PointerUp 1, DocumentPointerUp 1] ?s) = [onKeyPressed 13, onKeyPressedAndRepeat 13, onKeyReleased 13] \<and>
        keysPressed (run [PointerUp 1, DocumentPointerUp 1] ?s) = [] \<and>
        timersFor 13 (run [PointerUp 1, DocumentPointerUp 1] ?s) = {}"
    using pointer_up_releases_once[OF i(1) p e1 e2, THEN conjunct2, THEN conjunct2, THEN conjunct1] r by simp
  have w2: "notifications (run [DocumentPointerUp 1] ?s) = [onKeyPressed 13, onKeyPressedAndRepeat 13, onKeyReleased 13]"
    using pointer_up_releases_once[OF i(1) p f1 f2, THEN conjunct2, THEN conjunct2, THEN conjunct1] r by simp
  have w3: "keysPressed (run [DocumentPointerUp 1, PointerUp 1] ?n) = [13]"
    using pointer_up_releases_once[OF i(2) q g1 g2, THEN conjunct2, THEN conjunct2, THEN conjunct2] r by simp
  show ?thesis using i p q r(1,4) e1 e2 w1 w2 w3 by blast
qed

section \<open>Properties of the configuration reads\<close>

lemma resolveKeyCode_fails: "readFails lit gp name \<Longrightarrow> resolveKeyCode lit gp name fb = fb"
  by (auto simp: readFails_def resolveKeyCode_def Let_def split: sum.splits)

text \<open>
  Claim C10. \<open>resolveKeyCode\<close> returns the numeric reading of the retrieved value whenever
  that reading is finite; \<open>null\<close>, the empty string and \<open>false\<close> therefore give key code
  \<open>0\<close> and not the fallback. It returns the fallback when the reading is not finite, as for
  a parameter that is \<open>undefined\<close>, and when the retrieval throws. The first, third and
  fifth parts cover every outcome of the retrieval, so the fallback is returned in no other
  case.
\<close>

theorem resolveKeyCode_coercion:
  "(getParameter pluginName name = Inr v \<and> Number lit v = Finite q \<longrightarrow>
      resolveKeyCode lit getParameter name fb = JNumber (Finite q)) \<and>
   (getParameter pluginName name = Inr v \<and> v \<in> {JNull, JString [], JBoolean False} \<longrightarrow>
      resolveKeyCode lit getParameter name fb = JNumber (Finite 0)) \<and>
   (getParameter pluginName name = Inr v \<and> \<not> Number_isFinite (Number lit v) \<longrightarrow>
      resolveKeyCode lit getParameter name fb = fb) \<and>
   (getParameter pluginName name = Inr JUndefined \<longrightarrow> resolveKeyCode lit getParameter name fb = fb) \<and>
   (getParameter pluginName name = Inl e \<longrightarrow> resolveKeyCode lit getParameter name fb = fb)"
  by (auto simp: resolveKeyCode_def StringToNumber_def Let_def)

theorem resolveKeyCode_coercion_witness:
  "(\<lambda>p n. if n = ''ActionKeyCode'' then Inr (JString []) else Inr (JNumber (Finite 65))) pluginName ''MoveLeftKeyCode''
      = Inr (JNumber (Finite 65)) \<and>
   Number (\<lambda>s. NaN) (JNumber (Finite 65)) = Finite 65 \<and>
   resolveKeyCode (\<lambda>s. NaN) (\<lambda>p n. if n = ''ActionKeyCode'' then Inr (JString []) else Inr (JNumber (Finite 65)))
      ''MoveLeftKeyCode'' (JNumber (Finite 87)) = JNumber (Finite 65) \<and>
   JString [] \<in> {JNull, JString [], JBoolean False} \<and>
   resolveKeyCode (\<lambda>s. NaN) (\<lambda>p n. if n = ''ActionKeyCode'' then Inr (JString []) else Inr (JNumber (Finite 65)))
      ''ActionKeyCode'' (JNumber (Finite 13)) = JNumber (Finite 0) \<and>
   \<not> Number_isFinite (Number (\<lambda>s. NaN) (JNumber PosInfinity)) \<and>
   resolveKeyCode (\<lambda>s. NaN) (\<lambda>p n. Inr (JNumber PosInfinity)) ''ActionKeyCode'' (JNumber (Finite 13)) = JNumber (Finite 13) \<and>
   resolveKeyCode (\<lambda>s. NaN) (\<lambda>p n. Inr JUndefined) ''ActionKeyCode'' (JNumber (Finite 13)) = JNumber (Finite 13) \<and>
   resolveKeyCode (\<lambda>s. NaN) (\<lambda>p n. Inl (Thrown ''no plugin'')) ''ActionKeyCode'' (JNumber (Finite 13)) = JNumber (Finite 13)"
  using resolveKeyCode_coercion[of "\<lambda>p n. if n = ''ActionKeyCode'' then Inr (JString []) else Inr (JNumber (Finite 65))"
          "''MoveLeftKeyCode''" "JNumber (Finite 65)" "\<lambda>s. NaN" 65 "JNumber (Finite 87)"]
    resolveKeyCode_coercion[of "\<lambda>p n. if n = ''ActionKeyCode'' then Inr (JString []) else Inr (JNumber (Finite 65))"
          "''ActionKeyCode''" "JString []" "\<lambda>s. NaN" 0 "JNumber (Finite 13)"]
    resolveKeyCode_coercion[of "\<lambda>p n. Inr (JNumber PosInfinity)" "''ActionKeyCode''" "JNumber PosInfinity" "\<lambda>s. NaN" 0 "JNumber (Finite 13)"]
    resolveKeyCode_coercion[of "\<lambda>p n. Inr JUndefined" "''ActionKeyCode''" "JUndefined" "\<lambda>s. NaN" 0 "JNumber (Finite 13)"]
    resolveKeyCode_coercion[of "\<lambda>p n. Inl (Thrown ''no plugin'')" "''ActionKeyCode''" "JUndefined" "\<lambda>s. NaN" 0 "JNumber (Finite 13)" "Thrown ''no plugin''"]
  by simp

text \<open>
  Claim C7, as stated, covers every configuration value read when the module is evaluated.
  \<open>showGamepad\<close> is read by a bare call of \<open>getParameter\<close>: when that call throws, the
  throw leaves the module, and no default takes the value's place.
\<close>

theorem show_gamepad_throw_counterexample:
  "loadConfiguration (\<lambda>s. NaN) (\<lambda>p n. Inl (Thrown ''no such parameter''))
     \<lparr> UpHero = None, DownHero = None, LeftHero = None, RightHero = None,
       Action = None, Cancel = None, ButtonX = None, ButtonY = None \<rparr>
   = Inl (Thrown ''no such parameter'')"
  by (simp add: loadConfiguration_def)

text \<open>
  Claim C7, amended. Each of the eight key-code values is resolved on its own: when the
  read of its parameter fails (the retrieval throws, the parameter is \<open>undefined\<close>, or its
  value has no finite numeric reading), that key code is the fallback handed to
  \<open>resolveKeyCode\<close> for it, whatever the other reads do. The fallback is the host's key
  binding when there is one and it is neither \<open>undefined\<close> nor \<open>null\<close>, and the hard-coded
  default (87, 83, 65, 68, 13, 27, 13, 27) otherwise. No failure of a key-code read makes
  the load of the configuration fail. \<open>showGamepad\<close> is whatever \<open>getParameter\<close> returns,
  and the load fails exactly with the throw of that read.
\<close>

theorem key_codes_fall_back:
  "(readFails lit getParameter ''MoveUpKeyCode'' \<longrightarrow>
      up (KEY_CODES lit getParameter kb) = bindingOr (UpHero kb) 87) \<and>
   (readFails lit getParameter ''MoveDownKeyCode'' \<longrightarrow>
      down (KEY_CODES lit getParameter kb) = bindingOr (DownHero kb) 83) \<and>
   (readFails lit getParameter ''MoveLeftKeyCode'' \<longrightarrow>
      left (KEY_CODES lit getParameter kb) = bindingOr (LeftHero kb) 65) \<and>
   (readFails lit getParameter ''MoveRightKeyCode'' \<longrightarrow>
      right (KEY_CODES lit getParameter kb) = bindingOr (RightHero kb) 68) \<and>
   (readFails lit getParameter ''ActionKeyCode'' \<longrightarrow>
      action (KEY_CODES lit getParameter kb) = bindingOr (Action kb) 13) \<and>
   (readFails lit getParameter ''CancelKeyCode'' \<longrightarrow>
      cancel (KEY_CODES lit getParameter kb) = bindingOr (Cancel kb) 27) \<and>
   (readFails lit getParameter ''ButtonXKeyCode'' \<longrightarrow>
      buttonX (KEY_CODES lit getParameter kb) = bindingOr (ButtonX kb) 13) \<and>
   (readFails lit getParameter ''ButtonYKeyCode'' \<longrightarrow>
      buttonY (KEY_CODES lit getParameter kb) = bindingOr (ButtonY kb) 27) \<and>
   (getParameter pluginName name = Inl e \<longrightarrow> readFails lit getParameter name) \<and>
   (getParameter pluginName name = Inr JUndefined \<longrightarrow> readFails lit getParameter name) \<and>
   (getParameter pluginName name = Inr w \<and> \<not> Number_isFinite (Number lit w) \<longrightarrow>
      readFails lit getParameter name) \<and>
   bindingOr None d = JNumber (Finite d) \<and>
   bindingOr (Some JUndefined) d = JNumber (Finite d) \<and>
   bindingOr (Some JNull) d = JNumber (Finite d) \<and>
   (b \<noteq> JUndefined \<and> b \<noteq> JNull \<longrightarrow> bindingOr (Some b) d = b) \<and>
   (getParameter pluginName ''Show Gamepad'' = Inr v \<longrightarrow>
      loadConfiguration lit getParameter kb = Inr \<lparr> showGamepad = v, keyCodes = KEY_CODES lit getParameter kb \<rparr>) \<and>
   (getParameter pluginName ''Show Gamepad'' = Inl e' \<longrightarrow> loadConfiguration lit getParameter kb = Inl e')"
proof (intro conjI impI)
  show "bindingOr None d = JNumber (Finite d)" "bindingOr (Some JUndefined) d = JNumber (Finite d)"
    "bindingOr (Some JNull) d = JNumber (Finite d)"
    by (simp_all add: bindingOr_def)
next
  assume "b \<noteq> JUndefined \<and> b \<noteq> JNull"
  then show "bindingOr (Some b) d = b" by (simp add: bindingOr_def)
next
  assume "getParameter pluginName name = Inr w \<and> \<not> Number_isFinite (Number lit w)"
  then show "readFails lit getParameter name" by (simp add: readFails_def)
qed (simp_all add: KEY_CODES_def resolveKeyCode_fails readFails_def loadConfiguration_def)

theorem key_codes_fall_back_witness:
  "readFails (\<lambda>s. NaN)
     (\<lambda>p n. if n = ''Show Gamepad'' then Inr (JBoolean True)
             else if n = ''MoveLeftKeyCode'' then Inr JUndefined
             else if n = ''ActionKeyCode'' then Inr (JNumber PosInfinity)
             else Inl (Thrown ''no such parameter''))
     ''MoveUpKeyCode'' \<and>
   loadConfiguration (\<lambda>s. NaN)
     (\<lambda>p n. if n = ''Show Gamepad'' then Inr (JBoolean True)
             else if n = ''MoveLeftKeyCode'' then Inr JUndefined
             else if n = ''ActionKeyCode'' then Inr (JNumber PosInfinity)
             else Inl (Thrown ''no such parameter''))
     \<lparr> UpHero = Some (JNumber (Finite 38)), DownHero = Some JUndefined, LeftHero = Some JNull, RightHero = None,
       Action = None, Cancel = None, ButtonX = None, ButtonY = None \<rparr>
   = Inr \<lparr> showGamepad = JBoolean True,
           keyCodes = \<lparr> up = JNumber (Finite 38), down = JNumber (Finite 83), left = JNumber (Finite 65),
             right = JNumber (Finite 68), action = JNumber (Finite 13), cancel = JNumber (Finite 27),
             buttonX = JNumber (Finite 13), buttonY = JNumber (Finite 27) \<rparr> \<rparr> \<and>
   readFails (\<lambda>s. NaN)
     (\<lambda>p n. if n = ''MoveUpKeyCode'' then Inl (Thrown ''no such parameter'') else Inr (JNumber (Finite 32)))
     ''MoveUpKeyCode'' \<and>
   up (KEY_CODES (\<lambda>s. NaN)
     (\<lambda>p n. if n = ''MoveUpKeyCode'' then Inl (Thrown ''no such parameter'') else Inr (JNumber (Finite 32)))
     \<lparr> UpHero = Some (JNumber (Finite 38)), DownHero = Some JUndefined, LeftHero = Some JNull, RightHero = None,
       Action = None, Cancel = None, ButtonX = None, ButtonY = None \<rparr>) = JNumber (Finite 38) \<and>
   down (KEY_CODES (\<lambda>s. NaN)
     (\<lambda>p n. if n = ''MoveUpKeyCode'' then Inl (Thrown ''no such parameter'') else Inr (JNumber (Finite 32)))
     \<lparr> UpHero = Some (JNumber (Finite 38)), DownHero = Some JUndefined, LeftHero = Some JNull, RightHero = None,
       Action = None, Cancel = None, ButtonX = None, ButtonY = None \<rparr>) = JNumber (Finite 32)"
proof -
  let ?gp = "\<lambda>(p::string) n. if n = ''Show Gamepad'' then Inr (JBoolean True)
             else if n = ''MoveLeftKeyCode'' then Inr JUndefined
             else if n = ''ActionKeyCode'' then Inr (JNumber PosInfinity)
             else Inl (Thrown ''no such parameter'')"
  let ?gq = "\<lambda>(p::string) n. if n = ''MoveUpKeyCode'' then Inl (Thrown ''no such parameter'')
             else Inr (JNumber (Finite 32))"
  let ?kb = "\<lparr> UpHero = Some (JNumber (Finite 38)), DownHero = Some JUndefined, LeftHero = Some JNull, RightHero = None,
       Action = None, Cancel = None, ButtonX = None, ButtonY = None \<rparr>"
  note t = key_codes_fall_back[of "\<lambda>s. NaN" ?gp ?kb "''MoveUpKeyCode''" "Thrown ''no such parameter''"
             "JNumber PosInfinity" 87 "JNumber (Finite 38)" "JBoolean True" "Thrown ''no such parameter''"]
  note u = key_codes_fall_back[of "\<lambda>s. NaN" ?gq ?kb "''MoveUpKeyCode''" "Thrown ''no such parameter''"
             "JNumber PosInfinity" 87 "JNumber (Finite 38)" "JBoolean True" "Thrown ''no such parameter''"]
  have f: "readFails (\<lambda>s. NaN) ?gp ''MoveUpKeyCode''" "readFails (\<lambda>s. NaN) ?gp ''MoveDownKeyCode''"
    "readFails (\<lambda>s. NaN) ?gp ''MoveLeftKeyCode''" "readFails (\<lambda>s. NaN) ?gp ''MoveRightKeyCode''"
    "readFails (\<lambda>s. NaN) ?gp ''ActionKeyCode''" "readFails (\<lambda>s. NaN) ?gp ''CancelKeyCode''"
    "readFails (\<lambda>s. NaN) ?gp ''ButtonXKeyCode''" "readFails (\<lambda>s. NaN) ?gp ''ButtonYKeyCode''"
    by (simp_all add: readFails_def)
  have g: "?gp pluginName ''Show Gamepad'' = Inr (JBoolean True)" by simp
  have k: "KEY_CODES (\<lambda>s. NaN) ?gp ?kb =
      \<lparr> up = JNumber (Finite 38), down = JNumber (Finite 83), left = JNumber (Finite 65),
        right = JNumber (Finite 68), action = JNumber (Finite 13), cancel = JNumber (Finite 27),
        buttonX = JNumber (Finite 13), buttonY = JNumber (Finite 27) \<rparr>"
    using t f by (intro key_codes.equality) (simp_all add: bindingOr_def)
  have l: "loadConfiguration (\<lambda>s. NaN) ?gp ?kb = Inr \<lparr> showGamepad = JBoolean True, keyCodes = KEY_CODES (\<lambda>s. NaN) ?gp ?kb \<rparr>"
    using t g by blast
  have h: "readFails (\<lambda>s. NaN) ?gq ''MoveUpKeyCode''" by (simp add: readFails_def)
  have m: "up (KEY_CODES (\<lambda>s. NaN) ?gq ?kb) = JNumber (Finite 38)"
    using u h by (simp add: bindingOr_def)
  have n: "down (KEY_CODES (\<lambda>s. NaN) ?gq ?kb) = JNumber (Finite 32)"
    by (simp add: KEY_CODES_def resolveKeyCode_def)
  show ?thesis using f(1) k l h m n by simp
qed

section \<open>Properties of mounting\<close>

lemma elementId_setProperty [simp]: "elementId (setProperty n v e) = elementId e"
  by (cases e) simp

lemma childNodes_setProperty [simp]: "childNodes (setProperty n v e) = childNodes e"
  by (cases e) simp

lemma elementId_setProperties [simp]: "elementId (setProperties nvs e) = elementId e"
  unfolding setProperties_def by (induction nvs arbitrary: e) (auto)

lemma childNodes_setProperties [simp]: "childNodes (setProperties nvs e) = childNodes e"
  unfolding setProperties_def by (induction nvs arbitrary: e) (auto)

lemma elementId_addEventListener [simp]: "elementId (addEventListener ev f e) = elementId e"
  by (cases e) simp

lemma childNodes_addEventListener [simp]: "childNodes (addEventListener ev f e) = childNodes e"
  by (cases e) simp

lemma elementId_addEventListeners [simp]: "elementId (addEventListeners evs e) = elementId e"
  unfolding addEventListeners_def by (induction evs arbitrary: e) (auto)

lemma childNodes_addEventListeners [simp]: "childNodes (addEventListeners evs e) = childNodes e"
  unfolding addEventListeners_def by (induction evs arbitrary: e) (auto)

lemma elementId_appendChild [simp]: "elementId (appendChild e c) = elementId e"
  by (cases e) simp

lemma childNodes_appendChild [simp]: "childNodes (appendChild e c) = childNodes e @ [c]"
  by (cases e) simp

lemma elementId_setId [simp]: "elementId (setId i e) = i"
  by (cases e) simp

lemma childNodes_setId [simp]: "childNodes (setId i e) = childNodes e"
  by (cases e) simp

lemma elements_node: "elements e = e # concat (map elements (childNodes e))"
  by (cases e) simp

lemma ids_leaf: "childNodes e = [] \<Longrightarrow> map elementId (elements e) = [elementId e]"
  by (subst elements_node) simp

lemma ids_appendChild:
  "map elementId (elements (appendChild e c)) = map elementId (elements e) @ map elementId (elements c)"
  by (cases e) simp

lemma ids_button: "map elementId (elements (createTouchButton r c)) = [[], []]"
proof -
  let ?img = "setProperties [(''alt'', label c), (''src'', assetURL r (imageFile c)),
      (''style.maxWidth'', ''100%''), (''style.pointerEvents'', ''none'')] (createElement ''img'' :: 'a element)"
  have img: "map elementId (elements ?img) = [[]]"
    by (subst ids_leaf) (simp_all add: createElement_def)
  have i: "elementId (createTouchButton r c) = []"
    by (simp add: createTouchButton_def Let_def createElement_def)
  have c: "childNodes (createTouchButton r c) = [?img]"
    by (simp add: createTouchButton_def Let_def createElement_def)
  show ?thesis
    by (subst elements_node) (simp add: i c img)
qed

lemma ids_foldl_appendChild:
  "map elementId (elements (foldl (\<lambda>c config. appendChild c (f config)) e cs)) =
     map elementId (elements e) @ concat (map (\<lambda>config. map elementId (elements (f config))) cs)"
  by (induction cs arbitrary: e) (simp_all add: ids_appendChild)

lemma ids_clusterContainer: "map elementId (elements (clusterContainer cid side)) = [cid]"
  by (subst ids_leaf) (simp_all add: clusterContainer_def createElement_def)

lemma ids_mountDPad:
  "map elementId (allElements (mountDPad r kc doc)) =
     map elementId (allElements doc) @
       (if getElementById DPAD_ID doc \<noteq> None then [] else [DPAD_ID, [], [], [], [], [], [], [], []])"
  by (simp add: mountDPad_def allElements_def Let_def ids_appendChild ids_foldl_appendChild
        ids_clusterContainer ids_button dpadButtons_def del: foldl_Cons foldl_Nil)

lemma ids_mountABXY:
  "map elementId (allElements (mountABXY r kc doc)) =
     map elementId (allElements doc) @
       (if getElementById ABXY_ID doc \<noteq> None then [] else [ABXY_ID, [], [], [], [], [], [], [], []])"
  by (simp add: mountABXY_def allElements_def Let_def ids_appendChild ids_foldl_appendChild
        ids_clusterContainer ids_button abxyButtons_def del: foldl_Cons foldl_Nil)

lemma length_filter_count: "length (filter (\<lambda>e. f e = i) xs) = count_list (map f xs) i"
  by (induction xs) auto

lemma countId_ids: "countId i doc = count_list (map elementId (allElements doc)) i"
  by (simp add: countId_def length_filter_count)

lemma nodeCount_ids: "nodeCount doc = length (map elementId (allElements doc))"
  by (simp add: nodeCount_def)

lemma getElementById_ids:
  "getElementById i doc = None \<longleftrightarrow> i = [] \<or> i \<notin> set (map elementId (allElements doc))"
  by (auto simp: getElementById_def find_None_iff)

lemma mountDPad_present: "getElementById DPAD_ID (mountDPad r kc doc) \<noteq> None"
  by (simp add: getElementById_ids ids_mountDPad) (simp add: DPAD_ID_def)

lemma mountABXY_present: "getElementById ABXY_ID (mountABXY r kc doc) \<noteq> None"
  by (simp add: getElementById_ids ids_mountABXY) (simp add: ABXY_ID_def)

lemma mountDPad_adds:
  "getElementById DPAD_ID doc = None \<Longrightarrow> nodeCount (mountDPad r kc doc) = nodeCount doc + 9"
  by (simp add: nodeCount_ids ids_mountDPad del: length_map)

lemma mountABXY_adds:
  "getElementById ABXY_ID doc = None \<Longrightarrow> nodeCount (mountABXY r kc doc) = nodeCount doc + 9"
  by (simp add: nodeCount_ids ids_mountABXY del: length_map)

lemma mountDPad_keeps_ABXY:
  "getElementById ABXY_ID (mountDPad r kc doc) = None \<longleftrightarrow> getElementById ABXY_ID doc = None"
  by (simp add: getElementById_ids[of ABXY_ID] ids_mountDPad) (simp add: DPAD_ID_def ABXY_ID_def)

lemma mountABXY_keeps_DPAD:
  "getElementById DPAD_ID (mountABXY r kc doc) = None \<longleftrightarrow> getElementById DPAD_ID doc = None"
  by (simp add: getElementById_ids[of DPAD_ID] ids_mountABXY) (simp add: DPAD_ID_def ABXY_ID_def)

text \<open>
  Claim C9. Mounting is idempotent. If the container of a cluster is already in the
  document, its mount call returns the document unchanged; so mounting both clusters a
  second time changes nothing, no node is added. In a document that had at most one
  element with each of the two ids before, there is exactly one element with each id after
  the two rounds.
\<close>

theorem mount_idempotent:
  "(getElementById DPAD_ID doc \<noteq> None \<longrightarrow> mountDPad r kc doc = doc) \<and>
   (getElementById ABXY_ID doc \<noteq> None \<longrightarrow> mountABXY r kc doc = doc) \<and>
   mountABXY r kc (mountDPad r kc (mountABXY r kc (mountDPad r kc doc))) = mountABXY r kc (mountDPad r kc doc) \<and>
   nodeCount (mountABXY r kc (mountDPad r kc (mountABXY r kc (mountDPad r kc doc))))
     = nodeCount (mountABXY r kc (mountDPad r kc doc)) \<and>
   (countId DPAD_ID doc \<le> 1 \<and> countId ABXY_ID doc \<le> 1 \<longrightarrow>
      countId DPAD_ID (mountABXY r kc (mountDPad r kc (mountABXY r kc (mountDPad r kc doc)))) = 1 \<and>
      countId ABXY_ID (mountABXY r kc (mountDPad r kc (mountABXY r kc (mountDPad r kc doc)))) = 1)"
proof -
  let ?d1 = "mountDPad r kc doc"
  let ?d2 = "mountABXY r kc ?d1"
  have a: "getElementById DPAD_ID doc \<noteq> None \<longrightarrow> mountDPad r kc doc = doc"
    by (simp add: mountDPad_def)
  have b: "getElementById ABXY_ID doc \<noteq> None \<longrightarrow> mountABXY r kc doc = doc"
    by (simp add: mountABXY_def)
  have "getElementById DPAD_ID ?d2 \<noteq> None"
    by (simp add: mountABXY_keeps_DPAD mountDPad_present)
  then have "mountDPad r kc ?d2 = ?d2" by (simp add: mountDPad_def)
  moreover have "mountABXY r kc ?d2 = ?d2" using mountABXY_present[of r kc ?d1] by (simp add: mountABXY_def)
  ultimately have c: "mountABXY r kc (mountDPad r kc ?d2) = ?d2" by simp
  then have c': "nodeCount (mountABXY r kc (mountDPad r kc ?d2)) = nodeCount ?d2" by simp
  have ne: "DPAD_ID \<noteq> []" "ABXY_ID \<noteq> []" "DPAD_ID \<noteq> ABXY_ID" by (simp_all add: DPAD_ID_def ABXY_ID_def)
  have p1: "getElementById DPAD_ID doc = None \<longleftrightarrow> countId DPAD_ID doc = 0"
    using ne by (simp add: getElementById_ids countId_ids count_list_0_iff)
  have "getElementById ABXY_ID doc = None \<longleftrightarrow> countId ABXY_ID doc = 0"
    using ne by (simp add: getElementById_ids countId_ids count_list_0_iff)
  then have p2: "getElementById ABXY_ID ?d1 = None \<longleftrightarrow> countId ABXY_ID doc = 0"
    using mountDPad_keeps_ABXY[of r kc doc] by simp
  have n1: "countId DPAD_ID ?d2 = countId DPAD_ID doc + (if countId DPAD_ID doc = 0 then 1 else 0)"
    using ne p1 p2 by (simp add: countId_ids ids_mountABXY ids_mountDPad)
  have n2: "countId ABXY_ID ?d2 = countId ABXY_ID doc + (if countId ABXY_ID doc = 0 then 1 else 0)"
    using ne p1 p2 by (simp add: countId_ids ids_mountABXY ids_mountDPad)
  have d: "countId DPAD_ID doc \<le> 1 \<and> countId ABXY_ID doc \<le> 1 \<longrightarrow>
      countId DPAD_ID ?d2 = 1 \<and> countId ABXY_ID ?d2 = 1"
    unfolding n1 n2 by auto
  show ?thesis using a b c c' d by simp
qed

theorem mount_idempotent_witness:
  "getElementById DPAD_ID (mountDPad (\<lambda>u. u) \<lparr> up = 87::int, down = 83, left = 65, right = 68, action = 13, cancel = 27, buttonX = 13, buttonY = 27 \<rparr>
      \<lparr> outside = [], body = createElement ''body'' \<rparr>) \<noteq> None \<and>
   mountDPad (\<lambda>u. u) \<lparr> up = 87::int, down = 83, left = 65, right = 68, action = 13, cancel = 27, buttonX = 13, buttonY = 27 \<rparr>
     (mountDPad (\<lambda>u. u) \<lparr> up = 87::int, down = 83, left = 65, right = 68, action = 13, cancel = 27, buttonX = 13, buttonY = 27 \<rparr>
        \<lparr> outside = [], body = createElement ''body'' \<rparr>)
   = mountDPad (\<lambda>u. u) \<lparr> up = 87::int, down = 83, left = 65, right = 68, action = 13, cancel = 27, buttonX = 13, buttonY = 27 \<rparr>
        \<lparr> outside = [], body = createElement ''body'' \<rparr> \<and>
   countId DPAD_ID \<lparr> outside = [], body = createElement ''body'' :: int element \<rparr> \<le> 1 \<and>
   countId ABXY_ID \<lparr> outside = [], body = createElement ''body'' :: int element \<rparr> \<le> 1 \<and>
   countId DPAD_ID (mountABXY (\<lambda>u. u) \<lparr> up = 87::int, down = 83, left = 65, right = 68, action = 13, cancel = 27, buttonX = 13, buttonY = 27 \<rparr>
     (mountDPad (\<lambda>u. u) \<lparr> up = 87::int, down = 83, left = 65, right = 68, action = 13, cancel = 27, buttonX = 13, buttonY = 27 \<rparr>
       (mountABXY (\<lambda>u. u) \<lparr> up = 87::int, down = 83, left = 65, right = 68, action = 13, cancel = 27, buttonX = 13, buttonY = 27 \<rparr>
         (mountDPad (\<lambda>u. u) \<lparr> up = 87::int, down = 83, left = 65, right = 68, action = 13, cancel = 27, buttonX = 13, buttonY = 27 \<rparr>
            \<lparr> outside = [], body = createElement ''body'' \<rparr>)))) = 1"
proof -
  let ?kc = "\<lparr> up = 87::int, down = 83, left = 65, right = 68, action = 13, cancel = 27, buttonX = 13, buttonY = 27 \<rparr>"
  let ?doc = "\<lparr> outside = [], body = createElement ''body'' :: int element \<rparr>"
  have p: "getElementById DPAD_ID (mountDPad (\<lambda>u. u) ?kc ?doc) \<noteq> None" by (rule mountDPad_present)
  have c: "countId DPAD_ID ?doc \<le> 1" "countId ABXY_ID ?doc \<le> 1"
    by (simp_all add: countId_def allElements_def createElement_def DPAD_ID_def ABXY_ID_def)
  have m1: "mountDPad (\<lambda>u. u) ?kc (mountDPad (\<lambda>u. u) ?kc ?doc) = mountDPad (\<lambda>u. u) ?kc ?doc"
    using mount_idempotent[of "mountDPad (\<lambda>u. u) ?kc ?doc" "\<lambda>u. u" ?kc] p by blast
  have m2: "countId DPAD_ID (mountABXY (\<lambda>u. u) ?kc (mountDPad (\<lambda>u. u) ?kc
              (mountABXY (\<lambda>u. u) ?kc (mountDPad (\<lambda>u. u) ?kc ?doc)))) = 1"
    using mount_idempotent[of ?doc "\<lambda>u. u" ?kc] c by blast
  show ?thesis using p m1 c m2 by blast
qed

end
